theory Spec2Isabelle
  imports Main "HOL-Library.Word"
begin

text \<open>
  The repository holds several scripts for one page, a list of games by platform with
  links to IGDB. Three of them carry the logic modelled here:
  \<^item> \<^verbatim>\<open>src/script.js\<close>: links from an override map, an alias table or a generated
    slug, cover previews, and a search that renders on every input event;
  \<^item> the accordion script, first in \<^verbatim>\<open>src/unnamed/part_000\<close>: links from an override
    map or a generated slug, a letter filter, platform panels filled in batches, and a
    debounced search;
  \<^item> the alias script, \<^verbatim>\<open>src/unnamed/part_001\<close>, whose \<^verbatim>\<open>normalizeKey\<close>,
    \<^verbatim>\<open>preCleanTitle\<close> and \<^verbatim>\<open>slugifyIGDB\<close> are those of script.js.
  Where two scripts use one name for different functions, the function of the accordion
  script has the suffix \<open>_ui\<close>.
\<close>

section \<open>JavaScript strings and values\<close>

text \<open>
  A JavaScript string is a sequence of 16-bit code units, and the regular expressions of
  the scripts (none has the \<^verbatim>\<open>u\<close> flag) work on code units. \<open>js\<close> writes an
  ASCII or Latin-1 literal as such a string.
\<close>

type_synonym code_unit = "16 word"
type_synonym jstring = "code_unit list"

definition js :: "string \<Rightarrow> jstring" where
  "js s = map (\<lambda>c. of_nat (of_char c)) s"

text \<open>
  The values a property read can give. \<open>JArray\<close> is an array of strings (a list of
  titles); \<open>JObject\<close> is any other object, whose contents the scripts never read;
  \<open>JBuiltin n\<close> is the member of \<^verbatim>\<open>Object.prototype\<close> that a read of the
  name \<open>n\<close> finds on an object with no own property of that name (a function, or the
  prototype itself for \<^verbatim>\<open>__proto__\<close>). \<open>JNumber\<close> holds integral numbers;
  of a number the scripts only test whether it is zero.
\<close>

datatype jsvalue =
    JUndefined
  | JNull
  | JBoolean bool
  | JNumber int
  | JString jstring
  | JArray "jstring list"
  | JObject
  | JBuiltin jstring

datatype error = TypeError

fun truthy :: "jsvalue \<Rightarrow> bool" where
  "truthy JUndefined = False"
| "truthy JNull = False"
| "truthy (JBoolean b) = b"
| "truthy (JNumber n) = (n \<noteq> 0)"
| "truthy (JString s) = (s \<noteq> [])"
| "truthy (JArray ts) = True"
| "truthy JObject = True"
| "truthy (JBuiltin n) = True"

text \<open>
  What the scripts take from the JavaScript engine and its Unicode and locale tables,
  none of which is in the repository: compatibility decomposition, case mapping,
  locale-aware comparison and the text of a value that is not a string. They are
  parameters of the model. On a string of ASCII code units the first three are fixed by
  ECMAScript whatever the tables are, and the model computes them itself.
\<close>

record engine =
  nfkd_table :: "jstring \<Rightarrow> jstring"
  lower_table :: "jstring \<Rightarrow> jstring"
  upper_table :: "jstring \<Rightarrow> jstring"
  localeCompare :: "jstring \<Rightarrow> jstring \<Rightarrow> int"
  text_of :: "jsvalue \<Rightarrow> jstring"

definition is_ascii :: "code_unit \<Rightarrow> bool" where
  "is_ascii c \<longleftrightarrow> c < 0x80"

definition ascii_lower :: "code_unit \<Rightarrow> code_unit" where
  "ascii_lower c = (if 0x41 \<le> c \<and> c \<le> 0x5A then c + 0x20 else c)"

definition ascii_upper :: "code_unit \<Rightarrow> code_unit" where
  "ascii_upper c = (if 0x61 \<le> c \<and> c \<le> 0x7A then c - 0x20 else c)"

definition normalize_NFKD :: "engine \<Rightarrow> jstring \<Rightarrow> jstring" where
  "normalize_NFKD E s = (if list_all is_ascii s then s else nfkd_table E s)"

definition toLowerCase :: "engine \<Rightarrow> jstring \<Rightarrow> jstring" where
  "toLowerCase E s = (if list_all is_ascii s then map ascii_lower s else lower_table E s)"

definition toUpperCase :: "engine \<Rightarrow> jstring \<Rightarrow> jstring" where
  "toUpperCase E s = (if list_all is_ascii s then map ascii_upper s else upper_table E s)"

text \<open>Template literals and string concatenation turn a value into text.\<close>

definition ToString :: "engine \<Rightarrow> jsvalue \<Rightarrow> jstring" where
  "ToString E v = (case v of JString s \<Rightarrow> s | _ \<Rightarrow> text_of E v)"

text \<open>
  The engine used where a closed statement needs one. Its tables change nothing; it is
  applied to ASCII strings only, where no table is consulted.
\<close>

definition plain_engine :: engine where
  "plain_engine = \<lparr> nfkd_table = (\<lambda>s. s), lower_table = (\<lambda>s. s),
     upper_table = (\<lambda>s. s), localeCompare = (\<lambda>a b. 0), text_of = (\<lambda>v. []) \<rparr>"

subsection \<open>Character classes of the regular expressions\<close>

text \<open>
  \<^verbatim>\<open>\s\<close> and \<^verbatim>\<open>trim\<close> share one set: ECMAScript's WhiteSpace and
  LineTerminator code points. The dot of a regular expression matches every code unit
  but the four line terminators.
\<close>

definition is_space :: "code_unit \<Rightarrow> bool" where
  "is_space c \<longleftrightarrow>
     (0x09 \<le> c \<and> c \<le> 0x0D) \<or> c = 0x20 \<or> c = 0xA0 \<or> c = 0x1680
     \<or> (0x2000 \<le> c \<and> c \<le> 0x200A) \<or> c = 0x2028 \<or> c = 0x2029 \<or> c = 0x202F
     \<or> c = 0x205F \<or> c = 0x3000 \<or> c = 0xFEFF"

definition is_line_terminator :: "code_unit \<Rightarrow> bool" where
  "is_line_terminator c \<longleftrightarrow> c = 0x0A \<or> c = 0x0D \<or> c = 0x2028 \<or> c = 0x2029"

definition is_open :: "code_unit \<Rightarrow> bool" where
  "is_open c \<longleftrightarrow> c = 0x28 \<or> c = 0x5B \<or> c = 0x7B"

definition is_close :: "code_unit \<Rightarrow> bool" where
  "is_close c \<longleftrightarrow> c = 0x29 \<or> c = 0x5D \<or> c = 0x7D"

definition is_glyph :: "code_unit \<Rightarrow> bool" where
  "is_glyph c \<longleftrightarrow> c = 0x2122 \<or> c = 0xAE \<or> c = 0xA9"

definition is_combining :: "code_unit \<Rightarrow> bool" where
  "is_combining c \<longleftrightarrow> 0x0300 \<le> c \<and> c \<le> 0x036F"

definition is_alnum :: "code_unit \<Rightarrow> bool" where
  "is_alnum c \<longleftrightarrow> (0x61 \<le> c \<and> c \<le> 0x7A) \<or> (0x30 \<le> c \<and> c \<le> 0x39)"

definition is_upper_AZ :: "code_unit \<Rightarrow> bool" where
  "is_upper_AZ c \<longleftrightarrow> 0x41 \<le> c \<and> c \<le> 0x5A"

definition hyphen :: code_unit where
  "hyphen = 0x2D"

subsection \<open>String operations\<close>

fun starts_with :: "jstring \<Rightarrow> jstring \<Rightarrow> bool" where
  "starts_with [] s = True"
| "starts_with (p # ps) [] = False"
| "starts_with (p # ps) (c # cs) = (p = c \<and> starts_with ps cs)"

text \<open>\<^verbatim>\<open>hay.includes(needle)\<close>: the needle occurs at some position of the hay.\<close>

fun includes_str :: "jstring \<Rightarrow> jstring \<Rightarrow> bool" where
  "includes_str [] needle = (needle = [])"
| "includes_str (c # cs) needle = (starts_with needle (c # cs) \<or> includes_str cs needle)"

text \<open>\<^verbatim>\<open>s.split(sep)[0]\<close>: what stands before the first occurrence of \<open>sep\<close>.\<close>

fun split_first :: "jstring \<Rightarrow> jstring \<Rightarrow> jstring" where
  "split_first sep [] = []"
| "split_first sep (c # cs) = (if starts_with sep (c # cs) then [] else c # split_first sep cs)"

text \<open>\<^verbatim>\<open>s.replace(/x/g, r)\<close> for a single code unit \<open>x\<close>.\<close>

definition replace_unit :: "code_unit \<Rightarrow> jstring \<Rightarrow> jstring \<Rightarrow> jstring" where
  "replace_unit x r s = concat (map (\<lambda>c. if c = x then r else [c]) s)"

text \<open>
  \<^verbatim>\<open>s.replace(/[class]+/g, r)\<close>: every maximal run of code units of the class becomes
  one copy of \<open>r\<close>.
\<close>

function replace_runs :: "(code_unit \<Rightarrow> bool) \<Rightarrow> jstring \<Rightarrow> jstring \<Rightarrow> jstring" where
  "replace_runs P r [] = []"
| "replace_runs P r (c # cs) =
     (if P c then r @ replace_runs P r (dropWhile P cs) else c # replace_runs P r cs)"
  by pat_completeness auto
termination
  by (relation "measure (\<lambda>(P, r, s). length s)")
     (auto simp: le_imp_less_Suc length_dropWhile_le)

definition trim :: "jstring \<Rightarrow> jstring" where
  "trim s = rev (dropWhile is_space (rev (dropWhile is_space s)))"

text \<open>
  \<^verbatim>\<open>/\s*[\(\[\{].*?[\)\]\}]\s*/\<close> tried at the head of a string. The greedy
  \<^verbatim>\<open>\s*\<close> takes the whole run of white space, and giving some of it back cannot
  help, since the next code unit must be an opening bracket. The lazy \<^verbatim>\<open>.*?\<close>
  stops at the first closing bracket of any of the three kinds, and fails at a line
  terminator or at the end of the string. \<open>find_close\<close> and \<open>match_group\<close> return what
  follows the match.
\<close>

fun find_close :: "jstring \<Rightarrow> jstring option" where
  "find_close [] = None"
| "find_close (c # cs) =
     (if is_close c then Some cs
      else if is_line_terminator c then None
      else find_close cs)"

definition match_group :: "jstring \<Rightarrow> jstring option" where
  "match_group s =
     (case dropWhile is_space s of
        [] \<Rightarrow> None
      | c # cs \<Rightarrow>
          if is_open c
          then (case find_close cs of None \<Rightarrow> None | Some r \<Rightarrow> Some (dropWhile is_space r))
          else None)"

lemma find_close_shorter: "find_close s = Some r \<Longrightarrow> length r < length s"
  by (induction s) (auto split: if_splits)

lemma dropWhile_Cons_shorter: "dropWhile P s = c # cs \<Longrightarrow> length cs < length s"
proof -
  assume h: "dropWhile P s = c # cs"
  have "length (dropWhile P s) \<le> length s" by (rule length_dropWhile_le)
  with h show ?thesis by simp
qed

lemma match_group_shorter: "match_group s = Some r \<Longrightarrow> length r < length s"
proof -
  assume m: "match_group s = Some r"
  then obtain c cs r' where d: "dropWhile is_space s = c # cs"
    and f: "find_close cs = Some r'" and r: "r = dropWhile is_space r'"
    by (auto simp: match_group_def split: list.splits if_splits option.splits)
  have "length r \<le> length r'" using r by (simp add: length_dropWhile_le)
  also have "\<dots> < length cs" using f by (rule find_close_shorter)
  also have "\<dots> < length s" using d by (rule dropWhile_Cons_shorter)
  finally show ?thesis .
qed

text \<open>
  The global replace of the bracketed groups by one space: the leftmost match is
  replaced and the scan goes on behind it; a code unit where no match starts is kept.
\<close>

function strip_groups :: "jstring \<Rightarrow> jstring" where
  "strip_groups [] = []"
| "strip_groups (c # cs) =
     (case match_group (c # cs) of
        Some r \<Rightarrow> 0x20 # strip_groups r
      | None \<Rightarrow> c # strip_groups cs)"
  by pat_completeness auto
termination
  by (relation "measure length") (auto dest: match_group_shorter)

text \<open>
  \<^verbatim>\<open>s.replace(/^-+|-+$/g, "")\<close> removes the hyphens at the head and those at the
  end; \<^verbatim>\<open>s.replace(/-{2,}/g, "-")\<close> leaves one hyphen of every run of two or more.
\<close>

definition trim_hyphens :: "jstring \<Rightarrow> jstring" where
  "trim_hyphens s =
     rev (dropWhile (\<lambda>c. c = hyphen) (rev (dropWhile (\<lambda>c. c = hyphen) s)))"

function collapse_hyphens :: "jstring \<Rightarrow> jstring" where
  "collapse_hyphens [] = []"
| "collapse_hyphens [c] = [c]"
| "collapse_hyphens (a # b # cs) =
     (if a = hyphen \<and> b = hyphen
      then hyphen # collapse_hyphens (dropWhile (\<lambda>c. c = hyphen) cs)
      else a # collapse_hyphens (b # cs))"
  by pat_completeness auto
termination
  by (relation "measure length")
     (auto simp: le_imp_less_Suc less_Suc_eq_le length_dropWhile_le le_SucI)

section \<open>SlugResolver\<close>

subsection \<open>script.js (and the same functions of the alias variant)\<close>

definition preCleanTitle :: "jstring \<Rightarrow> jstring" where
  "preCleanTitle title =
     (let t = split_first (js '' / '') title;
          t = strip_groups t;
          t = filter (\<lambda>c. \<not> is_glyph c) t
      in trim (replace_runs is_space (js '' '') t))"

definition normalizeKey :: "engine \<Rightarrow> jstring \<Rightarrow> jstring" where
  "normalizeKey E s =
     filter is_alnum
       (toLowerCase E (filter (\<lambda>c. \<not> is_combining c) (normalize_NFKD E s)))"

text \<open>
  \<open>aliasSlugMap\<close> is an object literal. Reading a name it does not own finds the
  member of \<^verbatim>\<open>Object.prototype\<close> of that name, if there is one.
\<close>

definition object_prototype_names :: "jstring list" where
  "object_prototype_names =
     map js [''constructor'', ''hasOwnProperty'', ''isPrototypeOf'',
       ''propertyIsEnumerable'', ''toLocaleString'', ''toString'', ''valueOf'',
       ''__proto__'', ''__defineGetter__'', ''__defineSetter__'',
       ''__lookupGetter__'', ''__lookupSetter__'']"

definition property :: "(jstring \<times> jsvalue) list \<Rightarrow> jstring \<Rightarrow> jsvalue" where
  "property obj k =
     (case map_of obj k of
        Some v \<Rightarrow> v
      | None \<Rightarrow> if k \<in> set object_prototype_names then JBuiltin k else JUndefined)"

definition aliasSlugMap :: "(jstring \<times> jsvalue) list" where
  "aliasSlugMap =
     [(js ''unsquadron'', JString (js ''u-n-squadron'')),
      (js ''area88'', JString (js ''u-n-squadron'')),
      (js ''mariokart8'', JString (js ''mario-kart-8''))]"

text \<open>The slug made from the cleaned title when no alias applies.\<close>

definition generateSlug :: "engine \<Rightarrow> jstring \<Rightarrow> jstring" where
  "generateSlug E cleaned =
     (let s = replace_unit 0x2B (js '' plus '') (replace_unit 0x26 (js '' and '') cleaned);
          s = filter (\<lambda>c. \<not> is_combining c) (normalize_NFKD E s);
          s = toLowerCase E s;
          s = replace_runs (\<lambda>c. \<not> is_alnum c) [hyphen] s
      in collapse_hyphens (trim_hyphens s))"

definition slugifyIGDB :: "engine \<Rightarrow> jstring \<Rightarrow> jsvalue" where
  "slugifyIGDB E title =
     (let cleaned = preCleanTitle title;
          key = normalizeKey E cleaned
      in if truthy (property aliasSlugMap key) then property aliasSlugMap key
         else JString (generateSlug E cleaned))"

definition base_url :: jstring where
  "base_url = js ''https://www.igdb.com/games/''"

text \<open>
  The override map is read through \<^verbatim>\<open>linkMap?.[platform]?.[title]\<close>; the model
  takes the map as the function from a platform and a title to the value of that
  expression, \<open>JUndefined\<close> where either level is missing.
\<close>

type_synonym linkmap = "jstring \<Rightarrow> jstring \<Rightarrow> jsvalue"

definition getIGDBUrl :: "engine \<Rightarrow> linkmap \<Rightarrow> jstring \<Rightarrow> jstring \<Rightarrow> jsvalue" where
  "getIGDBUrl E linkMap platform title =
     (let m = linkMap platform title
      in if truthy m then m
         else JString (base_url @ ToString E (slugifyIGDB E title)))"

subsection \<open>The script with the accordion and the letter filter\<close>

definition slugifyIGDB_ui :: "engine \<Rightarrow> jstring \<Rightarrow> jstring" where
  "slugifyIGDB_ui E title =
     (let t = split_first (js '' / '') title;
          t = strip_groups t;
          t = filter (\<lambda>c. \<not> is_glyph c) t;
          t = replace_unit 0x26 (js '' and '') t;
          t = replace_unit 0x2B (js '' plus '') t;
          cleaned = trim (replace_runs is_space (js '' '') t);
          s = filter (\<lambda>c. \<not> is_combining c) (normalize_NFKD E cleaned);
          s = toLowerCase E s;
          s = replace_runs (\<lambda>c. \<not> is_alnum c) [hyphen] s
      in collapse_hyphens (trim_hyphens s))"

definition toURL :: "engine \<Rightarrow> linkmap \<Rightarrow> jstring \<Rightarrow> jstring \<Rightarrow> jsvalue" where
  "toURL E LINKMAP platform title =
     (let m = LINKMAP platform title
      in if truthy m then m else JString (base_url @ slugifyIGDB_ui E title))"

section \<open>The catalog and the filter state\<close>

text \<open>
  The catalog is the object read from \<^verbatim>\<open>games.json\<close>, kept as the list of its own
  properties in the order \<^verbatim>\<open>Object.keys\<close> gives them. A property has one value:
  \<open>property\<close> reads the first binding of a name and \<open>Object_keys\<close> lists each name once.
  The value of a platform can be any value; a list of titles is a \<open>JArray\<close>.
\<close>

type_synonym catalog = "(jstring \<times> jsvalue) list"

fun Object_keys :: "catalog \<Rightarrow> jstring list" where
  "Object_keys [] = []"
| "Object_keys ((k, v) # kvs) = k # filter (\<lambda>x. x \<noteq> k) (Object_keys kvs)"

text \<open>
  \<^verbatim>\<open>keys.sort((a, b) => a.localeCompare(b))\<close>: a stable sort by the engine's
  comparison, written as insertion sort.
\<close>

fun insert_by :: "(jstring \<Rightarrow> jstring \<Rightarrow> int) \<Rightarrow> jstring \<Rightarrow> jstring list \<Rightarrow> jstring list" where
  "insert_by cmp x [] = [x]"
| "insert_by cmp x (y # ys) = (if cmp x y \<le> 0 then x # y # ys else y # insert_by cmp x ys)"

definition sort_by :: "(jstring \<Rightarrow> jstring \<Rightarrow> int) \<Rightarrow> jstring list \<Rightarrow> jstring list" where
  "sort_by cmp xs = foldr (insert_by cmp) xs []"

definition platformKeys :: "engine \<Rightarrow> catalog \<Rightarrow> jstring list" where
  "platformKeys E GAMES = sort_by (localeCompare E) (Object_keys GAMES)"

text \<open>\<^verbatim>\<open>v || []\<close>, and \<^verbatim>\<open>v.filter(f)\<close>, which only an array has.\<close>

definition or_empty :: "jsvalue \<Rightarrow> jsvalue" where
  "or_empty v = (if truthy v then v else JArray [])"

definition array_filter :: "(jstring \<Rightarrow> bool) \<Rightarrow> jsvalue \<Rightarrow> error + jstring list" where
  "array_filter f v = (case v of JArray ts \<Rightarrow> Inr (filter f ts) | _ \<Rightarrow> Inl TypeError)"

datatype density = Cozy | Compact

record filter_state =
  search :: jstring
  platform :: jstring
  letter :: jstring
  density :: density
  chunk :: nat

section \<open>FilterEngine\<close>

definition firstLetterKey :: "engine \<Rightarrow> jstring \<Rightarrow> jstring" where
  "firstLetterKey E title =
     (let ch = toUpperCase E (take 1 (trim title))
      in if list_ex is_upper_AZ ch then ch else js ''#'')"

definition titleMatchesFilters :: "engine \<Rightarrow> filter_state \<Rightarrow> jstring \<Rightarrow> bool" where
  "titleMatchesFilters E st title =
     (if search st \<noteq> [] \<and> \<not> includes_str (toLowerCase E title) (search st) then False
      else if letter st \<noteq> [] \<and> firstLetterKey E title \<noteq> letter st then False
      else True)"

text \<open>\<^verbatim>\<open>Map.prototype.set\<close> on a map kept as the list of its entries in insertion order.\<close>

fun map_set :: "(jstring \<times> 'v) list \<Rightarrow> jstring \<Rightarrow> 'v \<Rightarrow> (jstring \<times> 'v) list" where
  "map_set [] k v = [(k, v)]"
| "map_set ((k', v') # kvs) k v =
     (if k' = k then (k, v) # kvs else (k', v') # map_set kvs k v)"

text \<open>
  The first loop of \<^verbatim>\<open>render\<close>: the running total and the map from a platform to
  its filtered titles. A \<^verbatim>\<open>TypeError\<close> ends the whole call.
\<close>

fun filter_loop ::
  "engine \<Rightarrow> catalog \<Rightarrow> filter_state \<Rightarrow> jstring list
     \<Rightarrow> nat \<times> (jstring \<times> jstring list) list
     \<Rightarrow> error + nat \<times> (jstring \<times> jstring list) list" where
  "filter_loop E GAMES st [] acc = Inr acc"
| "filter_loop E GAMES st (p # ps) (totalTitles, filteredByPlatform) =
     (case array_filter (titleMatchesFilters E st) (or_empty (property GAMES p)) of
        Inl e \<Rightarrow> Inl e
      | Inr filtered \<Rightarrow>
          filter_loop E GAMES st ps
            (totalTitles + length filtered,
             if filtered \<noteq> [] then map_set filteredByPlatform p filtered
             else filteredByPlatform))"

definition allPlatforms :: "engine \<Rightarrow> catalog \<Rightarrow> filter_state \<Rightarrow> jstring list" where
  "allPlatforms E GAMES st =
     (if platform st \<noteq> [] then [platform st] else platformKeys E GAMES)"

definition filterPlatforms ::
  "engine \<Rightarrow> catalog \<Rightarrow> filter_state \<Rightarrow> error + nat \<times> (jstring \<times> jstring list) list" where
  "filterPlatforms E GAMES st = filter_loop E GAMES st (allPlatforms E GAMES st) (0, [])"

section \<open>IncrementalRenderer\<close>

record row =
  row_compact :: bool
  row_href :: jsvalue
  row_text :: jstring

definition makeGameRow :: "engine \<Rightarrow> linkmap \<Rightarrow> filter_state \<Rightarrow> jstring \<Rightarrow> jstring \<Rightarrow> row" where
  "makeGameRow E LINKMAP st p title =
     \<lparr> row_compact = (density st = Compact),
       row_href = toURL E LINKMAP p title,
       row_text = title \<rparr>"

text \<open>
  One platform panel: what the page shows of it (its name, whether it is open, its
  count, the rows of its grid, and the button with the number it reports, if the button
  is there) and the variables of the \<^verbatim>\<open>renderBatch\<close> closure.
\<close>

record panel =
  panel_title :: jstring
  panel_open :: bool
  panel_count :: nat
  titles :: "jstring list"
  start :: nat
  step :: nat
  grid :: "row list"
  load_more :: "nat option"

definition renderBatch :: "engine \<Rightarrow> linkmap \<Rightarrow> filter_state \<Rightarrow> panel \<Rightarrow> panel" where
  "renderBatch E LINKMAP st pn =
     (let end = min (start pn + step pn) (length (titles pn));
          rows = map (makeGameRow E LINKMAP st (panel_title pn))
                   (take (end - start pn) (drop (start pn) (titles pn)));
          pn = pn\<lparr> grid := grid pn @ rows, start := end \<rparr>
      in if start pn \<ge> length (titles pn) then pn\<lparr> load_more := None \<rparr> else pn)"

definition new_panel :: "engine \<Rightarrow> linkmap \<Rightarrow> filter_state \<Rightarrow> jstring \<Rightarrow> jstring list \<Rightarrow> panel" where
  "new_panel E LINKMAP st p ts =
     (let pn = \<lparr> panel_title = p, panel_open = (platform st \<noteq> []),
                 panel_count = length ts, titles = ts, start = 0, step = chunk st,
                 grid = [], load_more = None \<rparr>;
          pn = renderBatch E LINKMAP st pn
      in if length ts > start pn then pn\<lparr> load_more := Some (length ts - start pn) \<rparr>
         else pn)"

text \<open>A click on the button; without the button there is nothing to click.\<close>

definition click_more :: "engine \<Rightarrow> linkmap \<Rightarrow> filter_state \<Rightarrow> panel \<Rightarrow> panel" where
  "click_more E LINKMAP st pn =
     (case load_more pn of
        None \<Rightarrow> pn
      | Some _ \<Rightarrow>
          (let pn = renderBatch E LINKMAP st pn
           in if length (titles pn) > start pn
              then pn\<lparr> load_more := Some (length (titles pn) - start pn) \<rparr>
              else pn\<lparr> load_more := None \<rparr>))"

text \<open>
  \<^verbatim>\<open>render\<close> of the accordion script: the count of matching titles and one panel for
  every entry of the map. The wording of the summary line, the ids of the panels and the
  two buttons beside each link are text and wiring of the page that nothing reads back;
  they are left out.
\<close>

record page =
  total_titles :: nat
  panels :: "panel list"

definition render_ui :: "engine \<Rightarrow> linkmap \<Rightarrow> catalog \<Rightarrow> filter_state \<Rightarrow> error + page" where
  "render_ui E LINKMAP GAMES st =
     (case filterPlatforms E GAMES st of
        Inl e \<Rightarrow> Inl e
      | Inr (totalTitles, filteredByPlatform) \<Rightarrow>
          Inr \<lparr> total_titles = totalTitles,
                panels = map (\<lambda>(p, ts). new_panel E LINKMAP st p ts) filteredByPlatform \<rparr>)"

subsection \<open>script.js: one heading and one link per title, no batches\<close>

definition getCoverUrl :: "linkmap \<Rightarrow> jstring \<Rightarrow> jstring \<Rightarrow> jstring option" where
  "getCoverUrl coverMap p title =
     (case coverMap p title of
        JString u \<Rightarrow> if u \<noteq> [] then Some u else None
      | _ \<Rightarrow> None)"

datatype node = Heading jstring | GameItem jstring jsvalue "jstring option"

fun render_loop ::
  "engine \<Rightarrow> linkmap \<Rightarrow> linkmap \<Rightarrow> catalog \<Rightarrow> jstring \<Rightarrow> jstring list \<Rightarrow> node list
     \<Rightarrow> error + node list" where
  "render_loop E linkMap coverMap games searchTerm [] container = Inr container"
| "render_loop E linkMap coverMap games searchTerm (p # ps) container =
     (case array_filter
             (\<lambda>g. searchTerm = [] \<or> includes_str (toLowerCase E g) searchTerm)
             (or_empty (property games p)) of
        Inl e \<Rightarrow> Inl e
      | Inr ts \<Rightarrow>
          if ts = [] then render_loop E linkMap coverMap games searchTerm ps container
          else render_loop E linkMap coverMap games searchTerm ps
                 (container @ Heading p #
                    map (\<lambda>title. GameItem title (getIGDBUrl E linkMap p title)
                                    (getCoverUrl coverMap p title)) ts))"

definition render ::
  "engine \<Rightarrow> linkmap \<Rightarrow> linkmap \<Rightarrow> catalog \<Rightarrow> jstring \<Rightarrow> jstring \<Rightarrow> error + node list" where
  "render E linkMap coverMap games searchValue selectedPlatform =
     (let searchTerm = trim (toLowerCase E searchValue);
          platforms = (if selectedPlatform \<noteq> [] then [selectedPlatform]
                       else sort_by (localeCompare E) (Object_keys games))
      in render_loop E linkMap coverMap games searchTerm platforms [])"

section \<open>FilterState controller\<close>

text \<open>The \<^verbatim>\<open>state\<close> constant of the accordion script.\<close>

definition initial_state :: filter_state where
  "initial_state = \<lparr> search = [], platform = [], letter = [], density = Cozy, chunk = 400 \<rparr>"

text \<open>
  The search box and its debounced handler, with time in milliseconds. \<open>field\<close> is the
  text of the box, \<open>timer\<close> the variable \<^verbatim>\<open>t\<close> of the \<^verbatim>\<open>debounce\<close> closure,
  \<open>pending\<close> the timeouts not yet fired, each with its id and the time it is due, and
  \<open>renders\<close> the calls of \<^verbatim>\<open>render\<close> so far, each with the state it ran on.
\<close>

record controller =
  clock :: nat
  field :: jstring
  fstate :: filter_state
  timer :: "nat option"
  pending :: "(nat \<times> nat) list"
  next_id :: nat
  renders :: "filter_state list"

definition clearTimeout :: "nat option \<Rightarrow> controller \<Rightarrow> controller" where
  "clearTimeout tid u = u\<lparr> pending := filter (\<lambda>(i, d). Some i \<noteq> tid) (pending u) \<rparr>"

text \<open>The function \<^verbatim>\<open>debounce\<close> returns, with the default delay of 160.\<close>

definition debounced_input :: "controller \<Rightarrow> controller" where
  "debounced_input u =
     (let u = clearTimeout (timer u) u;
          i = next_id u
      in u\<lparr> pending := pending u @ [(i, clock u + 160)], next_id := Suc i,
            timer := Some i \<rparr>)"

text \<open>
  The debounced function itself: it reads the box when it runs,
  \<^verbatim>\<open>state.search = e.target.value.trim().toLowerCase(); render()\<close>.
\<close>

definition search_callback :: "engine \<Rightarrow> controller \<Rightarrow> controller" where
  "search_callback E u =
     (let s = (fstate u)\<lparr> search := toLowerCase E (trim (field u)) \<rparr>
      in u\<lparr> fstate := s, renders := renders u @ [s] \<rparr>)"

text \<open>
  Time passes up to \<open>now\<close>: the timeouts due by then fire, in the order they were set.
  A timeout due at the very moment of an event fires before the event's handler.
\<close>

definition advance :: "engine \<Rightarrow> nat \<Rightarrow> controller \<Rightarrow> controller" where
  "advance E now u =
     (let due = filter (\<lambda>(i, d). d \<le> now) (pending u);
          u = u\<lparr> pending := filter (\<lambda>(i, d). \<not> d \<le> now) (pending u) \<rparr>;
          u = fold (\<lambda>_. search_callback E) due u
      in u\<lparr> clock := max (clock u) now \<rparr>)"

text \<open>An input event: at time \<open>now\<close> the user has changed the text of the box to \<open>v\<close>.\<close>

definition input_event :: "engine \<Rightarrow> nat \<times> jstring \<Rightarrow> controller \<Rightarrow> controller" where
  "input_event E e u = debounced_input ((advance E (fst e) u)\<lparr> field := snd e \<rparr>)"

fun run_events :: "engine \<Rightarrow> (nat \<times> jstring) list \<Rightarrow> controller \<Rightarrow> controller" where
  "run_events E [] u = u"
| "run_events E (e # es) u = run_events E es (input_event E e u)"

text \<open>No further event comes: every timeout still pending fires.\<close>

definition settle :: "engine \<Rightarrow> controller \<Rightarrow> controller" where
  "settle E u = (fold (\<lambda>_. search_callback E) (pending u) u)\<lparr> pending := [] \<rparr>"

definition new_controller :: controller where
  "new_controller = \<lparr> clock = 0, field = [], fstate = initial_state, timer = None,
     pending = [], next_id = 0, renders = [] \<rparr>"

text \<open>
  \<^verbatim>\<open>bindControls\<close> of script.js registers \<^verbatim>\<open>render\<close> itself as the handler of
  the input event: every event renders at once, with the search term
  \<^verbatim>\<open>value.toLowerCase().trim()\<close>. The model keeps the search terms rendered.
\<close>

fun bindControls_events :: "engine \<Rightarrow> (nat \<times> jstring) list \<Rightarrow> jstring list \<Rightarrow> jstring list" where
  "bindControls_events E [] rendered = rendered"
| "bindControls_events E (e # es) rendered =
     bindControls_events E es (rendered @ [trim (toLowerCase E (snd e))])"

section \<open>Properties used to state the claims\<close>

definition slug_char :: "code_unit \<Rightarrow> bool" where
  "slug_char c \<longleftrightarrow> is_alnum c \<or> c = hyphen"

fun no_double_hyphen :: "jstring \<Rightarrow> bool" where
  "no_double_hyphen [] = True"
| "no_double_hyphen [c] = True"
| "no_double_hyphen (a # b # cs) =
     (\<not> (a = hyphen \<and> b = hyphen) \<and> no_double_hyphen (b # cs))"

definition well_formed_slug :: "jstring \<Rightarrow> bool" where
  "well_formed_slug s \<longleftrightarrow>
     list_all slug_char s
     \<and> (case s of [] \<Rightarrow> True | c # _ \<Rightarrow> c \<noteq> hyphen)
     \<and> (case rev s of [] \<Rightarrow> True | c # _ \<Rightarrow> c \<noteq> hyphen)
     \<and> no_double_hyphen s"

text \<open>
  Events within the debounce window: each comes less than 160 milliseconds after the one
  before, so before the timeout set by that one is due.
\<close>

fun within_window :: "(nat \<times> jstring) list \<Rightarrow> bool" where
  "within_window [] = True"
| "within_window [e] = True"
| "within_window (a # b # es) =
     (fst a \<le> fst b \<and> fst b < fst a + 160 \<and> within_window (b # es))"

text \<open>
  The filtered titles of one platform, as the loop of each script computes them: the value
  of the platform, or the empty array in its place, filtered by the predicate of that
  script.
\<close>

definition filtered_titles ::
  "engine \<Rightarrow> catalog \<Rightarrow> filter_state \<Rightarrow> jstring \<Rightarrow> error + jstring list" where
  "filtered_titles E GAMES st p =
     array_filter (titleMatchesFilters E st) (or_empty (property GAMES p))"

definition searched_titles ::
  "engine \<Rightarrow> catalog \<Rightarrow> jstring \<Rightarrow> jstring \<Rightarrow> error + jstring list" where
  "searched_titles E games searchTerm p =
     array_filter (\<lambda>g. searchTerm = [] \<or> includes_str (toLowerCase E g) searchTerm)
       (or_empty (property games p))"

text \<open>
  A catalog whose values are lists of titles or falsy values, and a selected platform
  that is none (the empty string), one of the catalog, or at least not the name of a
  member of \<^verbatim>\<open>Object.prototype\<close>.
\<close>

fun titles_or_falsy :: "jsvalue \<Rightarrow> bool" where
  "titles_or_falsy (JArray ts) = True"
| "titles_or_falsy v = (\<not> truthy v)"

definition catalog_ok :: "catalog \<Rightarrow> bool" where
  "catalog_ok G = list_all (\<lambda>(k, v). titles_or_falsy v) G"

definition selectable :: "catalog \<Rightarrow> jstring \<Rightarrow> bool" where
  "selectable G p \<longleftrightarrow> p = [] \<or> p \<in> fst ` set G \<or> p \<notin> set object_prototype_names"

text \<open>
  A panel that has emitted the first \<open>n\<close> of the titles \<open>ts\<close>, in their order, and
  shows the button exactly while some are left, with their number.
\<close>

definition panel_at ::
  "engine \<Rightarrow> linkmap \<Rightarrow> filter_state \<Rightarrow> jstring \<Rightarrow> jstring list \<Rightarrow> nat \<Rightarrow> panel \<Rightarrow> bool" where
  "panel_at E LM st p ts n pn \<longleftrightarrow>
     panel_title pn = p \<and> titles pn = ts \<and> step pn = chunk st \<and> start pn = n
     \<and> grid pn = map (makeGameRow E LM st p) (take n ts)
     \<and> load_more pn = (if n < length ts then Some (length ts - n) else None)"

text \<open>
  A controller where, since the state \<open>u0\<close>, nothing was rendered and exactly one
  timeout is pending: the one set at time \<open>now\<close>, when the box got the text \<open>v\<close>.
\<close>

definition armed :: "controller \<Rightarrow> nat \<Rightarrow> jstring \<Rightarrow> controller \<Rightarrow> bool" where
  "armed u0 now v u \<longleftrightarrow>
     (\<exists>i. pending u = [(i, now + 160)] \<and> timer u = Some i)
     \<and> clock u = now \<and> field u = v \<and> fstate u = fstate u0 \<and> renders u = renders u0"

subsection \<open>Concrete inputs\<close>

definition no_overrides :: linkmap where
  "no_overrides p t = JUndefined"

definition example_overrides :: linkmap where
  "example_overrides p t =
     (if p = js ''SNES'' \<and> t = js ''Chrono Trigger (Japan)''
      then JString (js ''https://www.igdb.com/games/chrono-trigger--1'')
      else if p = js ''NES'' \<and> t = js ''Contra'' then JString []
      else JUndefined)"

definition blank_overrides :: linkmap where
  "blank_overrides p t = (if p = js ''GB'' \<and> t = js ''Tetris'' then JString [] else JUndefined)"

definition example_catalog :: catalog where
  "example_catalog =
     [(js ''SNES'', JArray [js ''Chrono Trigger'', js ''Super Metroid'']),
      (js ''NES'', JArray [js ''Contra'', js ''Metroid'', js ''3D Pinball'']),
      (js ''Lynx'', JNull)]"

definition example_state :: filter_state where
  "example_state = initial_state\<lparr> search := js ''metroid'', platform := js ''NES'' \<rparr>"

definition malformed_catalog :: catalog where
  "malformed_catalog = [(js ''NES'', JString (js ''Contra''))]"

definition letter_A :: filter_state where
  "letter_A = initial_state\<lparr> letter := js ''A'' \<rparr>"

definition letter_hash :: filter_state where
  "letter_hash = initial_state\<lparr> letter := js ''#'' \<rparr>"

definition letter_I :: filter_state where
  "letter_I = initial_state\<lparr> letter := js ''I'' \<rparr>"

text \<open>
  An engine with the two entries of Unicode's table of upper-case mappings that send a
  letter outside ASCII to an ASCII letter: U+0131, the dotless i, to I, and U+017F, the
  long s, to S. \<^verbatim>\<open>toUpperCase\<close> follows that table in every JavaScript engine.
\<close>

definition case_engine :: engine where
  "case_engine = plain_engine\<lparr> upper_table :=
     (\<lambda>s. if s = [0x0131] then [0x49] else if s = [0x017F] then [0x53] else s) \<rparr>"

definition dotless_title :: jstring where
  "dotless_title = [0x0131] @ js ''ssiz Ada''"

definition erased_title :: jstring where
  "erased_title = js '' (Demo) [b1]'' @ [0x2122, 0xAE]"

definition typing :: "(nat \<times> jstring) list" where
  "typing = [(0, js ''M''), (90, js ''Me''), (200, js ''Met ''), (340, js '' Metroid '')]"

definition two_keys :: "(nat \<times> jstring) list" where
  "two_keys = [(0, js ''M''), (90, js ''Me'')]"

section \<open>Slugs are well formed\<close>

lemma set_replace_runs: "set (replace_runs P r s) \<subseteq> set r \<union> {c \<in> set s. \<not> P c}"
proof (induction P r s rule: replace_runs.induct)
  case (1 P r)
  then show ?case by simp
next
  case (2 P r c cs)
  show ?case
  proof (cases "P c")
    case True
    have "set (dropWhile P cs) \<subseteq> set cs" by (auto dest: set_dropWhileD)
    with True 2 show ?thesis by auto
  next
    case False
    with 2 show ?thesis by auto
  qed
qed

lemma set_trim_hyphens: "set (trim_hyphens s) \<subseteq> set s"
  by (auto simp: trim_hyphens_def dest!: set_dropWhileD)

lemma set_collapse_hyphens: "set (collapse_hyphens s) \<subseteq> set s"
proof (induction s rule: collapse_hyphens.induct)
  case (3 a b cs)
  have "set (dropWhile (\<lambda>c. c = hyphen) cs) \<subseteq> set cs" by (auto dest: set_dropWhileD)
  with 3 show ?case by auto
qed simp_all

lemma collapse_hyphens_Nil: "collapse_hyphens s = [] \<longleftrightarrow> s = []"
  by (induction s rule: collapse_hyphens.induct) auto

lemma hd_collapse_hyphens: "hd (collapse_hyphens s) = hd s"
  by (induction s rule: collapse_hyphens.induct) auto

lemma no_double_hyphen_Cons:
  "no_double_hyphen (a # s) \<longleftrightarrow> (s = [] \<or> \<not> (a = hyphen \<and> hd s = hyphen)) \<and> no_double_hyphen s"
  by (cases s) auto

lemma hd_dropWhile_hyphen:
  "dropWhile (\<lambda>c. c = hyphen) s \<noteq> [] \<Longrightarrow> hd (dropWhile (\<lambda>c. c = hyphen) s) \<noteq> hyphen"
  using hd_dropWhile[of "\<lambda>c. c = hyphen" s] by simp

lemma no_double_collapse: "no_double_hyphen (collapse_hyphens s)"
proof (induction s rule: collapse_hyphens.induct)
  case (3 a b cs)
  show ?case
  proof (cases "a = hyphen \<and> b = hyphen")
    case True
    let ?d = "dropWhile (\<lambda>c. c = hyphen) cs"
    have "collapse_hyphens ?d = [] \<or> hd (collapse_hyphens ?d) \<noteq> hyphen"
      using hd_dropWhile_hyphen[of cs] by (auto simp: collapse_hyphens_Nil hd_collapse_hyphens)
    with True 3 show ?thesis by (auto simp: no_double_hyphen_Cons)
  next
    case False
    with 3 show ?thesis
      by (auto simp: no_double_hyphen_Cons hd_collapse_hyphens collapse_hyphens_Nil)
  qed
qed simp_all

lemma last_dropWhile_keep:
  "s \<noteq> [] \<Longrightarrow> \<not> P (last s) \<Longrightarrow> dropWhile P s \<noteq> [] \<and> last (dropWhile P s) = last s"
  by (induction s) (auto split: if_splits)

lemma last_collapse_hyphens:
  "s \<noteq> [] \<Longrightarrow> last s \<noteq> hyphen \<Longrightarrow> last (collapse_hyphens s) \<noteq> hyphen"
proof (induction s rule: collapse_hyphens.induct)
  case (3 a b cs)
  show ?case
  proof (cases "a = hyphen \<and> b = hyphen")
    case True
    let ?d = "dropWhile (\<lambda>c. c = hyphen) cs"
    from 3(3,4) True have cs: "cs \<noteq> []" "last cs \<noteq> hyphen" by (auto split: if_splits)
    then have d: "?d \<noteq> []" "last ?d = last cs"
      using last_dropWhile_keep[of cs "\<lambda>c. c = hyphen"] by auto
    with 3(1) True cs have "last (collapse_hyphens ?d) \<noteq> hyphen" by simp
    with True d show ?thesis by (simp add: collapse_hyphens_Nil)
  next
    case False
    with 3 show ?thesis by (auto simp: collapse_hyphens_Nil)
  qed
qed simp_all

lemma trim_hyphens_ends:
  "trim_hyphens s = [] \<or> (hd (trim_hyphens s) \<noteq> hyphen \<and> last (trim_hyphens s) \<noteq> hyphen)"
proof (cases "trim_hyphens s = []")
  case True
  then show ?thesis by simp
next
  case False
  let ?P = "\<lambda>c. c = hyphen"
  let ?d = "dropWhile ?P s"
  let ?e = "dropWhile ?P (rev ?d)"
  have t: "trim_hyphens s = rev ?e" by (simp add: trim_hyphens_def)
  with False have e: "?e \<noteq> []" by simp
  then have "\<not> ?P (hd ?e)" by (rule hd_dropWhile)
  then have l: "last (trim_hyphens s) \<noteq> hyphen" using e t by (simp add: last_rev)
  have "rev ?d = takeWhile ?P (rev ?d) @ ?e" by simp
  then have "?d = rev ?e @ rev (takeWhile ?P (rev ?d))"
    by (metis rev_append rev_rev_ident)
  then have "hd ?d = hd (rev ?e)" using e by (metis hd_append2 rev_is_Nil_conv)
  moreover have "?d \<noteq> []"
  proof
    assume a: "?d = []"
    have "?e = []" unfolding a by simp
    with e show False by simp
  qed
  then have "\<not> ?P (hd ?d)" by (rule hd_dropWhile)
  ultimately have "hd (trim_hyphens s) \<noteq> hyphen" using t by simp
  with l show ?thesis by simp
qed

lemma well_formed_finish:
  assumes "set s \<subseteq> {c. slug_char c}"
  shows "well_formed_slug (collapse_hyphens (trim_hyphens s))"
proof -
  let ?t = "trim_hyphens s"
  let ?c = "collapse_hyphens ?t"
  have "set ?c \<subseteq> set s" using set_collapse_hyphens[of ?t] set_trim_hyphens[of s] by blast
  with assms have chars: "list_all slug_char ?c" by (auto simp: list_all_iff)
  have first: "(case ?c of [] \<Rightarrow> True | c # _ \<Rightarrow> c \<noteq> hyphen)"
  proof (cases ?c)
    case (Cons x xs)
    then have "?t \<noteq> []" using collapse_hyphens_Nil[of ?t] by auto
    with trim_hyphens_ends[of s] have "hd ?t \<noteq> hyphen" by simp
    with Cons hd_collapse_hyphens[of ?t] show ?thesis by simp
  qed simp
  have lst: "(case rev ?c of [] \<Rightarrow> True | c # _ \<Rightarrow> c \<noteq> hyphen)"
  proof (cases "rev ?c")
    case (Cons x xs)
    then have ne: "?t \<noteq> []" using collapse_hyphens_Nil[of ?t] by auto
    with trim_hyphens_ends[of s] have "last ?t \<noteq> hyphen" by simp
    with ne have "last ?c \<noteq> hyphen" by (rule last_collapse_hyphens)
    moreover have "last ?c = x" using Cons by (metis last_rev list.sel(1) rev_rev_ident)
    ultimately show ?thesis using Cons by simp
  qed simp
  show ?thesis unfolding well_formed_slug_def using chars first lst no_double_collapse by simp
qed

lemma runs_slug_chars: "set (replace_runs (\<lambda>c. \<not> is_alnum c) [hyphen] s) \<subseteq> {c. slug_char c}"
  using set_replace_runs[of "\<lambda>c. \<not> is_alnum c" "[hyphen]" s] by (auto simp: slug_char_def)

lemma generateSlug_wf: "well_formed_slug (generateSlug E cleaned)"
  unfolding generateSlug_def Let_def by (rule well_formed_finish) (rule runs_slug_chars)

lemma slugifyIGDB_ui_wf: "well_formed_slug (slugifyIGDB_ui E title)"
  unfolding slugifyIGDB_ui_def Let_def by (rule well_formed_finish) (rule runs_slug_chars)

lemma alias_values:
  "property aliasSlugMap k = JString s \<Longrightarrow> s = js ''u-n-squadron'' \<or> s = js ''mario-kart-8''"
  by (auto simp: property_def aliasSlugMap_def split: if_splits)

lemma alias_wf: "well_formed_slug (js ''u-n-squadron'')" "well_formed_slug (js ''mario-kart-8'')"
  by code_simp+

text \<open>
  Claim C2. Whatever the title, the slug that the generation path of \<open>slugifyIGDB\<close>
  makes has only code units of \<^verbatim>\<open>[a-z0-9-]\<close>, no hyphen at its head or end and no two
  hyphens in a row. The same holds of the slug of the accordion script, and of every
  string that \<open>slugifyIGDB\<close> returns, the alias slugs included.
\<close>

theorem generated_slug_well_formed:
  "well_formed_slug (generateSlug E cleaned)
   \<and> well_formed_slug (slugifyIGDB_ui E title)
   \<and> (\<forall>s. slugifyIGDB E title = JString s \<longrightarrow> well_formed_slug s)"
proof -
  have "well_formed_slug s" if "slugifyIGDB E title = JString s" for s
  proof (cases "truthy (property aliasSlugMap (normalizeKey E (preCleanTitle title)))")
    case True
    with that have "property aliasSlugMap (normalizeKey E (preCleanTitle title)) = JString s"
      by (simp add: slugifyIGDB_def Let_def)
    then show ?thesis using alias_values alias_wf by blast
  next
    case False
    with that have "s = generateSlug E (preCleanTitle title)"
      by (simp add: slugifyIGDB_def Let_def)
    then show ?thesis by (simp add: generateSlug_wf)
  qed
  then show ?thesis using generateSlug_wf slugifyIGDB_ui_wf by blast
qed

theorem generated_slug_well_formed_witness:
  "slugifyIGDB plain_engine (js ''Chrono Trigger (Japan)'') = JString (js ''chrono-trigger'')
   \<and> well_formed_slug (js ''chrono-trigger'')
   \<and> well_formed_slug (generateSlug plain_engine (js ''--Tom & Jerry--''))"
proof -
  have e: "slugifyIGDB plain_engine (js ''Chrono Trigger (Japan)'')
             = JString (js ''chrono-trigger'')"
    by code_simp
  with generated_slug_well_formed
         [of plain_engine "js ''--Tom & Jerry--''" "js ''Chrono Trigger (Japan)''"]
  show ?thesis by blast
qed

section \<open>Overrides\<close>

text \<open>
  Claim C1 says that an override that is present is returned as it is. An override that
  is the empty string is present and is not returned: both resolvers test the entry for
  truth, and go on to the slug.
\<close>

theorem empty_override_not_verbatim:
  "example_overrides (js ''NES'') (js ''Contra'') = JString []
   \<and> getIGDBUrl plain_engine example_overrides (js ''NES'') (js ''Contra'')
       = JString (js ''https://www.igdb.com/games/contra'')
   \<and> toURL plain_engine example_overrides (js ''NES'') (js ''Contra'')
       = JString (js ''https://www.igdb.com/games/contra'')"
  by code_simp

text \<open>
  Claim C1, amended. For every platform and title whose entry of the override map is a
  string that is not empty, \<open>getIGDBUrl\<close> and \<open>toURL\<close> return that string, code unit for
  code unit; no cleaning, alias or slug is involved.
\<close>

theorem nonempty_override_verbatim:
  "linkMap p t = JString u \<Longrightarrow> u \<noteq> [] \<Longrightarrow>
     getIGDBUrl E linkMap p t = JString u \<and> toURL E linkMap p t = JString u"
  by (simp add: getIGDBUrl_def toURL_def Let_def)

theorem nonempty_override_verbatim_witness:
  "example_overrides (js ''SNES'') (js ''Chrono Trigger (Japan)'')
     = JString (js ''https://www.igdb.com/games/chrono-trigger--1'')
   \<and> js ''https://www.igdb.com/games/chrono-trigger--1'' \<noteq> []
   \<and> getIGDBUrl plain_engine example_overrides (js ''SNES'') (js ''Chrono Trigger (Japan)'')
       = JString (js ''https://www.igdb.com/games/chrono-trigger--1'')
   \<and> toURL plain_engine example_overrides (js ''SNES'') (js ''Chrono Trigger (Japan)'')
       = JString (js ''https://www.igdb.com/games/chrono-trigger--1'')"
proof -
  have a: "example_overrides (js ''SNES'') (js ''Chrono Trigger (Japan)'')
     = JString (js ''https://www.igdb.com/games/chrono-trigger--1'')"
    by (simp add: example_overrides_def)
  have b: "js ''https://www.igdb.com/games/chrono-trigger--1'' \<noteq> []"
    by (simp add: js_def)
  from nonempty_override_verbatim[where linkMap = example_overrides and p = "js ''SNES''"
         and t = "js ''Chrono Trigger (Japan)''" and E = plain_engine
         and u = "js ''https://www.igdb.com/games/chrono-trigger--1''"] a b
  show ?thesis by simp
qed

text \<open>
  Claim C10. Where the entry of the override map is the empty string, the resolvers do
  not return it: they return the base URL followed by the alias or generated slug. No
  call of a resolver returns the empty string.
\<close>

theorem empty_override_falls_through:
  "(linkMap p t = JString [] \<longrightarrow>
      getIGDBUrl E linkMap p t = JString (base_url @ ToString E (slugifyIGDB E t))
      \<and> toURL E linkMap p t = JString (base_url @ slugifyIGDB_ui E t))
   \<and> getIGDBUrl E linkMap p t \<noteq> JString []
   \<and> toURL E linkMap p t \<noteq> JString []"
proof -
  have b: "base_url \<noteq> []" by (simp add: base_url_def js_def)
  show ?thesis
    using b by (cases "linkMap p t") (auto simp: getIGDBUrl_def toURL_def Let_def)
qed

theorem empty_override_falls_through_witness:
  "blank_overrides (js ''GB'') (js ''Tetris'') = JString []
   \<and> getIGDBUrl plain_engine blank_overrides (js ''GB'') (js ''Tetris'')
       = JString (js ''https://www.igdb.com/games/tetris'')
   \<and> toURL plain_engine blank_overrides (js ''GB'') (js ''Tetris'')
       = JString (js ''https://www.igdb.com/games/tetris'')"
proof -
  have a: "blank_overrides (js ''GB'') (js ''Tetris'') = JString []"
    by (simp add: blank_overrides_def)
  have s1: "base_url @ ToString plain_engine (slugifyIGDB plain_engine (js ''Tetris''))
              = js ''https://www.igdb.com/games/tetris''"
    by code_simp
  have s2: "base_url @ slugifyIGDB_ui plain_engine (js ''Tetris'')
              = js ''https://www.igdb.com/games/tetris''"
    by code_simp
  from empty_override_falls_through[of blank_overrides "js ''GB''" "js ''Tetris''" plain_engine] a s1 s2
  show ?thesis by simp
qed

section \<open>Aliases and empty titles\<close>

text \<open>
  Claim C4. With no override, a title whose normalization key (taken from the cleaned
  title) is a key of the alias table resolves to the base URL followed by the slug the
  table gives, whatever slug the title would generate.
\<close>

theorem alias_wins:
  "\<not> truthy (linkMap p t) \<Longrightarrow>
   (normalizeKey E (preCleanTitle t), JString slug) \<in> set aliasSlugMap \<Longrightarrow>
   getIGDBUrl E linkMap p t = JString (base_url @ slug)"
  by (auto simp: getIGDBUrl_def slugifyIGDB_def Let_def property_def aliasSlugMap_def
                 ToString_def js_def)

theorem alias_wins_witness:
  "\<not> truthy (no_overrides (js ''Arcade'') (js ''Area 88 (Japan)''))
   \<and> normalizeKey plain_engine (preCleanTitle (js ''Area 88 (Japan)'')) = js ''area88''
   \<and> (js ''area88'', JString (js ''u-n-squadron'')) \<in> set aliasSlugMap
   \<and> generateSlug plain_engine (preCleanTitle (js ''Area 88 (Japan)'')) = js ''area-88''
   \<and> getIGDBUrl plain_engine no_overrides (js ''Arcade'') (js ''Area 88 (Japan)'')
       = JString (js ''https://www.igdb.com/games/u-n-squadron'')"
proof -
  have a: "\<not> truthy (no_overrides (js ''Arcade'') (js ''Area 88 (Japan)''))"
    by (simp add: no_overrides_def)
  have k: "normalizeKey plain_engine (preCleanTitle (js ''Area 88 (Japan)'')) = js ''area88''"
    by code_simp
  have m: "(js ''area88'', JString (js ''u-n-squadron'')) \<in> set aliasSlugMap"
    by (simp add: aliasSlugMap_def)
  have g: "generateSlug plain_engine (preCleanTitle (js ''Area 88 (Japan)'')) = js ''area-88''"
    by code_simp
  have u: "base_url @ js ''u-n-squadron'' = js ''https://www.igdb.com/games/u-n-squadron''"
    by (simp add: base_url_def js_def)
  from alias_wins[where linkMap = no_overrides and p = "js ''Arcade''"
         and t = "js ''Area 88 (Japan)''" and E = plain_engine
         and slug = "js ''u-n-squadron''"] a k m
  have "getIGDBUrl plain_engine no_overrides (js ''Arcade'') (js ''Area 88 (Japan)'')
          = JString (base_url @ js ''u-n-squadron'')" by simp
  with a k m g u show ?thesis by simp
qed

lemma replace_unit_absent: "x \<notin> set s \<Longrightarrow> replace_unit x r s = s"
  by (induction s) (auto simp: replace_unit_def)

lemma dropWhile_all: "\<forall>c \<in> set s. P c \<Longrightarrow> dropWhile P s = []"
  by (induction s) auto

lemma replace_runs_all:
  "\<forall>c \<in> set s. P c \<Longrightarrow> replace_runs P r s = (if s = [] then [] else r)"
  by (cases s) (simp_all add: dropWhile_all)

lemma no_alnum_slug:
  assumes "filter is_alnum s = []"
  shows "collapse_hyphens (trim_hyphens (replace_runs (\<lambda>c. \<not> is_alnum c) [hyphen] s)) = []"
proof -
  from assms have "\<forall>c \<in> set s. \<not> is_alnum c" by (simp add: filter_empty_conv)
  then have "replace_runs (\<lambda>c. \<not> is_alnum c) [hyphen] s = (if s = [] then [] else [hyphen])"
    by (rule replace_runs_all)
  then show ?thesis by (simp add: trim_hyphens_def)
qed

lemma empty_key_no_alias: "property aliasSlugMap [] = JUndefined"
  by (simp add: property_def aliasSlugMap_def object_prototype_names_def js_def)

lemma normalizeKey_Nil: "normalizeKey E [] = []"
  by (simp add: normalizeKey_def normalize_NFKD_def toLowerCase_def)

text \<open>
  Claim C9 says that a title whose normalization after cleaning is the empty string
  resolves to the base URL with an empty slug. The title \<^verbatim>\<open>&\<close> is cleaned to itself and
  its normalization key is the empty string, but the generation path first writes the
  ampersand out: its slug is \<^verbatim>\<open>and\<close>.
\<close>

theorem ampersand_title_resolves_to_and:
  "\<not> truthy (no_overrides (js ''PC'') (js ''&''))
   \<and> normalizeKey plain_engine (preCleanTitle (js ''&'')) = []
   \<and> getIGDBUrl plain_engine no_overrides (js ''PC'') (js ''&'')
       = JString (js ''https://www.igdb.com/games/and'')"
  by code_simp

text \<open>
  Claim C9, amended. With no override, a title that cleaning leaves empty, or whose
  cleaned form has an empty normalization key and neither an ampersand nor a plus sign,
  resolves, with no error and no guard in the way, to the base URL with an empty slug
  behind it.
\<close>

theorem empty_key_resolves_to_base:
  assumes "\<not> truthy (linkMap p t)"
    and "preCleanTitle t = []
         \<or> (normalizeKey E (preCleanTitle t) = []
             \<and> 0x26 \<notin> set (preCleanTitle t) \<and> 0x2B \<notin> set (preCleanTitle t))"
  shows "slugifyIGDB E t = JString [] \<and> getIGDBUrl E linkMap p t = JString base_url"
proof -
  let ?c = "preCleanTitle t"
  from assms(2) have k: "normalizeKey E ?c = []" and a: "0x26 \<notin> set ?c" "0x2B \<notin> set ?c"
    by (auto simp: normalizeKey_Nil)
  from a have r: "replace_unit 0x2B (js '' plus '') (replace_unit 0x26 (js '' and '') ?c) = ?c"
    by (simp add: replace_unit_absent)
  from k have "filter is_alnum
      (toLowerCase E (filter (\<lambda>c. \<not> is_combining c) (normalize_NFKD E ?c))) = []"
    by (simp add: normalizeKey_def)
  then have "generateSlug E ?c = []"
    unfolding generateSlug_def Let_def r by (rule no_alnum_slug)
  with k have s: "slugifyIGDB E t = JString []"
    by (simp add: slugifyIGDB_def Let_def empty_key_no_alias)
  with assms(1) show ?thesis by (simp add: getIGDBUrl_def Let_def ToString_def)
qed

theorem empty_key_resolves_to_base_witness:
  "\<not> truthy (no_overrides (js ''PC'') erased_title)
   \<and> preCleanTitle erased_title = []
   \<and> getIGDBUrl plain_engine no_overrides (js ''PC'') erased_title
       = JString (js ''https://www.igdb.com/games/'')
   \<and> normalizeKey plain_engine (preCleanTitle (js ''?!'')) = []
   \<and> getIGDBUrl plain_engine no_overrides (js ''PC'') (js ''?!'')
       = JString (js ''https://www.igdb.com/games/'')"
proof -
  have a: "\<not> truthy (no_overrides (js ''PC'') erased_title)"
    "\<not> truthy (no_overrides (js ''PC'') (js ''?!''))"
    by (simp_all add: no_overrides_def)
  have c: "preCleanTitle erased_title = []" by code_simp
  have k: "normalizeKey plain_engine (preCleanTitle (js ''?!'')) = []"
    "0x26 \<notin> set (preCleanTitle (js ''?!''))" "0x2B \<notin> set (preCleanTitle (js ''?!''))"
    by code_simp+
  from empty_key_resolves_to_base[where linkMap = no_overrides and p = "js ''PC''" and t = erased_title
         and E = plain_engine] a c
  have 1: "getIGDBUrl plain_engine no_overrides (js ''PC'') erased_title = JString base_url"
    by simp
  from empty_key_resolves_to_base[where linkMap = no_overrides and p = "js ''PC''" and t = "js ''?!''"
         and E = plain_engine] a k
  have 2: "getIGDBUrl plain_engine no_overrides (js ''PC'') (js ''?!'') = JString base_url"
    by simp
  from 1 2 a c k show ?thesis by (simp add: base_url_def)
qed

section \<open>Batches\<close>

lemma take_batch:
  "take a xs @ take (min (a + b) (length xs) - a) (drop a xs) = take (min (a + b) (length xs)) xs"
proof (cases "a \<le> length xs")
  case True
  then have "min (a + b) (length xs) = a + (min (a + b) (length xs) - a)" by simp
  then have "take (min (a + b) (length xs)) xs
         = take (a + (min (a + b) (length xs) - a)) xs" by simp
  also have "\<dots> = take a xs @ take (min (a + b) (length xs) - a) (drop a xs)"
    by (rule take_add)
  finally show ?thesis by simp
next
  case False
  then show ?thesis by simp
qed

lemma renderBatch_fields:
  "titles (renderBatch E LM st pn) = titles pn"
  "step (renderBatch E LM st pn) = step pn"
  "panel_title (renderBatch E LM st pn) = panel_title pn"
  "start (renderBatch E LM st pn) = min (start pn + step pn) (length (titles pn))"
  "grid (renderBatch E LM st pn) = grid pn @ map (makeGameRow E LM st (panel_title pn))
     (take (min (start pn + step pn) (length (titles pn)) - start pn) (drop (start pn) (titles pn)))"
  by (simp_all add: renderBatch_def Let_def)

lemma renderBatch_grid:
  assumes "grid pn = map (makeGameRow E LM st (panel_title pn)) (take (start pn) (titles pn))"
  shows "grid (renderBatch E LM st pn)
     = map (makeGameRow E LM st (panel_title pn))
         (take (min (start pn + step pn) (length (titles pn))) (titles pn))"
proof -
  let ?mk = "makeGameRow E LM st (panel_title pn)"
  let ?m = "min (start pn + step pn) (length (titles pn))"
  have "grid (renderBatch E LM st pn)
          = map ?mk (take (start pn) (titles pn))
            @ map ?mk (take (?m - start pn) (drop (start pn) (titles pn)))"
    using assms by (simp only: renderBatch_fields)
  also have "\<dots> = map ?mk (take (start pn) (titles pn)
                           @ take (?m - start pn) (drop (start pn) (titles pn)))"
    by (simp only: map_append)
  also have "\<dots> = map ?mk (take ?m (titles pn))"
    by (simp only: take_batch)
  finally show ?thesis .
qed

lemma renderBatch_more:
  "load_more (renderBatch E LM st pn)
     = (if length (titles pn) \<le> min (start pn + step pn) (length (titles pn)) then None
        else load_more pn)"
  by (simp add: renderBatch_def Let_def)

lemma renderBatch_at:
  assumes "panel_title pn = p" "titles pn = ts" "step pn = chunk st" "start pn = n"
    and "grid pn = map (makeGameRow E LM st p) (take n ts)"
    and "m = min (n + chunk st) (length ts)"
  shows "panel_title (renderBatch E LM st pn) = p \<and> titles (renderBatch E LM st pn) = ts
     \<and> step (renderBatch E LM st pn) = chunk st \<and> start (renderBatch E LM st pn) = m
     \<and> grid (renderBatch E LM st pn) = map (makeGameRow E LM st p) (take m ts)"
proof -
  have "grid pn = map (makeGameRow E LM st (panel_title pn)) (take (start pn) (titles pn))"
    using assms by simp
  then have "grid (renderBatch E LM st pn)
     = map (makeGameRow E LM st (panel_title pn))
         (take (min (start pn + step pn) (length (titles pn))) (titles pn))"
    by (rule renderBatch_grid)
  then have "grid (renderBatch E LM st pn) = map (makeGameRow E LM st p) (take m ts)"
    by (simp only: assms)
  then show ?thesis using assms by (simp only: renderBatch_fields)
qed

lemma new_panel_at:
  "panel_at E LM st p ts (min (chunk st) (length ts)) (new_panel E LM st p ts)"
proof -
  define p0 where "p0 = \<lparr> panel_title = p, panel_open = (platform st \<noteq> []),
                 panel_count = length ts, titles = ts, start = 0, step = chunk st,
                 grid = [], load_more = None \<rparr>"
  define m where "m = min (chunk st) (length ts)"
  define rb where "rb = renderBatch E LM st p0"
  have m: "m = min (0 + chunk st) (length ts)" by (simp add: m_def)
  have f: "panel_title rb = p \<and> titles rb = ts \<and> step rb = chunk st \<and> start rb = m
     \<and> grid rb = map (makeGameRow E LM st p) (take m ts)"
    unfolding rb_def by (rule renderBatch_at[OF _ _ _ _ _ m]) (simp_all add: p0_def)
  have l: "load_more rb = None"
    unfolding rb_def by (simp add: renderBatch_more p0_def)
  have n: "new_panel E LM st p ts
     = (if length ts > start rb then rb\<lparr> load_more := Some (length ts - start rb) \<rparr> else rb)"
    by (simp add: new_panel_def Let_def rb_def p0_def)
  have "panel_at E LM st p ts m (new_panel E LM st p ts)"
    unfolding n panel_at_def using f l by simp
  then show ?thesis by (simp only: m_def)
qed

lemma click_more_at:
  assumes "panel_at E LM st p ts n pn" "n \<le> length ts"
  shows "panel_at E LM st p ts (min (n + chunk st) (length ts)) (click_more E LM st pn)"
proof (cases "n < length ts")
  case True
  define m where "m = min (n + chunk st) (length ts)"
  define rb where "rb = renderBatch E LM st pn"
  from True assms have lm: "load_more pn = Some (length ts - n)" by (simp add: panel_at_def)
  have f: "panel_title rb = p \<and> titles rb = ts \<and> step rb = chunk st \<and> start rb = m
     \<and> grid rb = map (makeGameRow E LM st p) (take m ts)"
    unfolding rb_def using assms(1) by (intro renderBatch_at) (simp_all add: panel_at_def m_def)
  have c: "click_more E LM st pn
     = (if length (titles rb) > start rb
        then rb\<lparr> load_more := Some (length (titles rb) - start rb) \<rparr>
        else rb\<lparr> load_more := None \<rparr>)"
    using lm by (simp add: click_more_def Let_def rb_def)
  have "panel_at E LM st p ts m (click_more E LM st pn)"
    unfolding c panel_at_def using f by simp
  then show ?thesis by (simp only: m_def)
next
  case False
  with assms have "n = length ts" by simp
  with assms(1) have "load_more pn = None" by (simp add: panel_at_def)
  with assms(1) \<open>n = length ts\<close> show ?thesis
    by (simp add: click_more_def panel_at_def)
qed

lemma clicks_at:
  "panel_at E LM st p ts (min (Suc k * chunk st) (length ts))
     ((click_more E LM st ^^ k) (new_panel E LM st p ts))"
proof (induction k)
  case 0
  show ?case using new_panel_at[of E LM st p ts] by simp
next
  case (Suc k)
  have "min (min (Suc k * chunk st) (length ts) + chunk st) (length ts)
          = min (Suc (Suc k) * chunk st) (length ts)" by simp
  with click_more_at[OF Suc] show ?case by simp
qed

text \<open>
  Claim C3. A panel made for 1000 filtered titles with batches of 400 first shows the
  first 400 rows and a button reporting 600; after one click it shows the first 800 and
  reports 200; after two clicks its grid is the row of every title, each once and in the
  order of the list, and the button is gone.
\<close>

theorem batches_of_1000_by_400:
  assumes "length ts = 1000" and "chunk st = 400"
  shows "grid (new_panel E LM st p ts) = map (makeGameRow E LM st p) (take 400 ts)
     \<and> load_more (new_panel E LM st p ts) = Some 600
     \<and> grid (click_more E LM st (new_panel E LM st p ts))
         = map (makeGameRow E LM st p) (take 800 ts)
     \<and> load_more (click_more E LM st (new_panel E LM st p ts)) = Some 200
     \<and> grid (click_more E LM st (click_more E LM st (new_panel E LM st p ts)))
         = map (makeGameRow E LM st p) ts
     \<and> load_more (click_more E LM st (click_more E LM st (new_panel E LM st p ts))) = None
     \<and> click_more E LM st (click_more E LM st (click_more E LM st (new_panel E LM st p ts)))
         = click_more E LM st (click_more E LM st (new_panel E LM st p ts))"
proof -
  have a: "panel_at E LM st p ts 400 (new_panel E LM st p ts)"
    using clicks_at[of E LM st p ts 0] assms by simp
  have b: "panel_at E LM st p ts 800 (click_more E LM st (new_panel E LM st p ts))"
    using clicks_at[of E LM st p ts "Suc 0"] assms by simp
  have c: "panel_at E LM st p ts 1000
             (click_more E LM st (click_more E LM st (new_panel E LM st p ts)))"
    using clicks_at[of E LM st p ts "Suc (Suc 0)"] assms by simp
  from c assms have "load_more (click_more E LM st (click_more E LM st (new_panel E LM st p ts)))
      = None"
    by (simp add: panel_at_def)
  then have d: "click_more E LM st
       (click_more E LM st (click_more E LM st (new_panel E LM st p ts)))
     = click_more E LM st (click_more E LM st (new_panel E LM st p ts))"
    by (simp add: click_more_def)
  from a b c d assms show ?thesis by (simp add: panel_at_def)
qed

theorem batches_of_1000_by_400_witness:
  "length (replicate 1000 (js ''Pong'')) = 1000 \<and> chunk initial_state = 400
   \<and> load_more (new_panel plain_engine no_overrides initial_state (js ''Atari'')
        (replicate 1000 (js ''Pong''))) = Some 600
   \<and> load_more (click_more plain_engine no_overrides initial_state
        (click_more plain_engine no_overrides initial_state
          (new_panel plain_engine no_overrides initial_state (js ''Atari'')
             (replicate 1000 (js ''Pong''))))) = None
   \<and> length (grid (click_more plain_engine no_overrides initial_state
        (click_more plain_engine no_overrides initial_state
          (new_panel plain_engine no_overrides initial_state (js ''Atari'')
             (replicate 1000 (js ''Pong'')))))) = 1000"
proof -
  have l: "length (replicate 1000 (js ''Pong'')) = 1000" by simp
  have c: "chunk initial_state = 400" by (simp add: initial_state_def)
  from batches_of_1000_by_400[OF l c, of plain_engine no_overrides "js ''Atari''"] l c
  show ?thesis by simp
qed

section \<open>FilterEngine\<close>

lemma set_map_set: "set (map_set kvs k v) \<subseteq> insert (k, v) (set kvs)"
  by (induction kvs) (auto split: if_splits)

lemma keys_map_set: "fst ` set (map_set kvs k v) = insert k (fst ` set kvs)"
  by (induction kvs) (force split: if_splits)+

lemma filter_loop_entries:
  "filter_loop E G st ps (n, acc) = Inr (n', fbp) \<Longrightarrow> (p, ts) \<in> set fbp \<Longrightarrow>
     (p, ts) \<in> set acc \<or> (p \<in> set ps \<and> ts \<noteq> [] \<and> filtered_titles E G st p = Inr ts)"
proof (induction ps arbitrary: n acc)
  case Nil
  then show ?case by simp
next
  case (Cons q qs)
  from Cons.prems(1) obtain f where f: "filtered_titles E G st q = Inr f"
    by (auto simp: filtered_titles_def split: sum.splits)
  let ?acc = "if f \<noteq> [] then map_set acc q f else acc"
  from Cons.prems(1) f have "filter_loop E G st qs (n + length f, ?acc) = Inr (n', fbp)"
    by (simp add: filtered_titles_def)
  from Cons.IH[OF this Cons.prems(2)]
  have "(p, ts) \<in> set ?acc \<or> (p \<in> set qs \<and> ts \<noteq> [] \<and> filtered_titles E G st p = Inr ts)" .
  moreover have "(p, ts) \<in> set ?acc \<Longrightarrow> (p, ts) \<in> set acc \<or> (p = q \<and> ts = f \<and> f \<noteq> [])"
    using set_map_set[of acc q f] by (auto split: if_splits)
  ultimately show ?case using f by auto
qed

lemma filter_loop_keys:
  "filter_loop E G st ps (n, acc) = Inr (n', fbp) \<Longrightarrow>
     fst ` set fbp = fst ` set acc
        \<union> {p \<in> set ps. \<exists>ts. filtered_titles E G st p = Inr ts \<and> ts \<noteq> []}"
proof (induction ps arbitrary: n acc)
  case Nil
  then show ?case by simp
next
  case (Cons q qs)
  from Cons.prems(1) obtain f where f: "filtered_titles E G st q = Inr f"
    by (auto simp: filtered_titles_def split: sum.splits)
  let ?acc = "if f \<noteq> [] then map_set acc q f else acc"
  from Cons.prems(1) f have "filter_loop E G st qs (n + length f, ?acc) = Inr (n', fbp)"
    by (simp add: filtered_titles_def)
  from Cons.IH[OF this]
  have "fst ` set fbp = fst ` set ?acc
        \<union> {p \<in> set qs. \<exists>ts. filtered_titles E G st p = Inr ts \<and> ts \<noteq> []}" .
  moreover have "fst ` set ?acc = fst ` set acc \<union> (if f \<noteq> [] then {q} else {})"
    by (simp add: keys_map_set)
  ultimately show ?case using f by auto
qed

lemma render_loop_headings:
  "render_loop E lm cm G term ps c = Inr c' \<Longrightarrow> Heading p \<in> set c' \<Longrightarrow>
     Heading p \<in> set c
     \<or> (p \<in> set ps \<and> (\<exists>ts. searched_titles E G term p = Inr ts \<and> ts \<noteq> []))"
proof (induction ps arbitrary: c)
  case Nil
  then show ?case by simp
next
  case (Cons q qs)
  from Cons.prems(1) obtain f where f: "searched_titles E G term q = Inr f"
    by (auto simp: searched_titles_def split: sum.splits)
  let ?c = "if f = [] then c
            else c @ Heading q # map (\<lambda>title. GameItem title (getIGDBUrl E lm q title)
                                       (getCoverUrl cm q title)) f"
  from Cons.prems(1) f have "render_loop E lm cm G term qs ?c = Inr c'"
    by (simp add: searched_titles_def split: if_splits)
  from Cons.IH[OF this Cons.prems(2)]
  have "Heading p \<in> set ?c
     \<or> (p \<in> set qs \<and> (\<exists>ts. searched_titles E G term p = Inr ts \<and> ts \<noteq> []))" .
  moreover have "Heading p \<in> set ?c \<Longrightarrow> Heading p \<in> set c \<or> (p = q \<and> f \<noteq> [])"
    by (auto split: if_splits)
  ultimately show ?case using f by auto
qed

lemma example_filtered: "filtered_titles plain_engine example_catalog example_state (js ''NES'') = Inr [js ''Metroid'']"
  by code_simp

lemma example_searched: "searched_titles plain_engine example_catalog (trim (toLowerCase plain_engine (js '' Metroid ''))) (js ''SNES'') = Inr [js ''Super Metroid'']"
  by code_simp

lemma example_url: "getIGDBUrl plain_engine no_overrides (js ''SNES'') (js ''Super Metroid'') = JString (js ''https://www.igdb.com/games/super-metroid'')"
  by code_simp

text \<open>
  Claim C5. With a platform selected, the result of the filter has the entry of that
  platform and no other, and no entry at all when none of its titles passes. Whatever
  the state, every entry of the result has a list of titles that is not empty, and a
  platform whose filtered list is empty has no entry, while every platform visited whose
  filtered list is not empty has one. The same holds of the headings that script.js
  emits.
\<close>

theorem selected_platform_only:
  "(platform st \<noteq> [] \<longrightarrow>
      filterPlatforms E G st =
        (case filtered_titles E G st (platform st) of
           Inl e \<Rightarrow> Inl e
         | Inr f \<Rightarrow> Inr (length f, if f \<noteq> [] then [(platform st, f)] else [])))
   \<and> (filterPlatforms E G st = Inr (n, fbp) \<longrightarrow>
        (\<forall>(p, ts) \<in> set fbp. ts \<noteq> [] \<and> filtered_titles E G st p = Inr ts)
        \<and> (\<forall>p \<in> set (allPlatforms E G st).
              filtered_titles E G st p = Inr [] \<longrightarrow> p \<notin> fst ` set fbp)
        \<and> (\<forall>p \<in> set (allPlatforms E G st).
              (\<exists>ts. filtered_titles E G st p = Inr ts \<and> ts \<noteq> []) \<longrightarrow>
              p \<in> fst ` set fbp))
   \<and> (sel \<noteq> [] \<longrightarrow>
        render E lm cm G sv sel =
          (case searched_titles E G (trim (toLowerCase E sv)) sel of
             Inl e \<Rightarrow> Inl e
           | Inr ts \<Rightarrow>
               Inr (if ts = [] then []
                    else Heading sel # map (\<lambda>title. GameItem title (getIGDBUrl E lm sel title)
                                                (getCoverUrl cm sel title)) ts)))
   \<and> (render E lm cm G sv sel = Inr c \<longrightarrow>
        (\<forall>p. Heading p \<in> set c \<longrightarrow>
              (\<exists>ts. searched_titles E G (trim (toLowerCase E sv)) p = Inr ts \<and> ts \<noteq> [])))"
proof (intro conjI impI)
  assume "platform st \<noteq> []"
  then show "filterPlatforms E G st =
        (case filtered_titles E G st (platform st) of
           Inl e \<Rightarrow> Inl e
         | Inr f \<Rightarrow> Inr (length f, if f \<noteq> [] then [(platform st, f)] else []))"
    by (simp add: filterPlatforms_def allPlatforms_def filtered_titles_def split: sum.splits)
next
  assume r: "filterPlatforms E G st = Inr (n, fbp)"
  then have l: "filter_loop E G st (allPlatforms E G st) (0, []) = Inr (n, fbp)"
    by (simp add: filterPlatforms_def)
  show "\<forall>(p, ts) \<in> set fbp. ts \<noteq> [] \<and> filtered_titles E G st p = Inr ts"
    using filter_loop_entries[OF l] by auto
  then show "\<forall>p \<in> set (allPlatforms E G st).
              filtered_titles E G st p = Inr [] \<longrightarrow> p \<notin> fst ` set fbp"
    by fastforce
  show "\<forall>p \<in> set (allPlatforms E G st).
              (\<exists>ts. filtered_titles E G st p = Inr ts \<and> ts \<noteq> []) \<longrightarrow>
              p \<in> fst ` set fbp"
    using filter_loop_keys[OF l] by simp
next
  assume "sel \<noteq> []"
  then show "render E lm cm G sv sel =
          (case searched_titles E G (trim (toLowerCase E sv)) sel of
             Inl e \<Rightarrow> Inl e
           | Inr ts \<Rightarrow>
               Inr (if ts = [] then []
                    else Heading sel # map (\<lambda>title. GameItem title (getIGDBUrl E lm sel title)
                                                (getCoverUrl cm sel title)) ts))"
    by (simp add: render_def Let_def searched_titles_def split: sum.splits)
next
  assume r: "render E lm cm G sv sel = Inr c"
  show "\<forall>p. Heading p \<in> set c \<longrightarrow>
              (\<exists>ts. searched_titles E G (trim (toLowerCase E sv)) p = Inr ts \<and> ts \<noteq> [])"
    using render_loop_headings[of E lm cm G "trim (toLowerCase E sv)" _ "[]" c] r
    by (auto simp: render_def Let_def)
qed

theorem selected_platform_only_witness:
  "platform example_state \<noteq> []
   \<and> filterPlatforms plain_engine example_catalog example_state
       = Inr (1, [(js ''NES'', [js ''Metroid''])])
   \<and> js ''SNES'' \<noteq> []
   \<and> render plain_engine no_overrides no_overrides example_catalog
         (js '' Metroid '') (js ''SNES'')
       = Inr [Heading (js ''SNES''),
              GameItem (js ''Super Metroid'')
                (JString (js ''https://www.igdb.com/games/super-metroid'')) None]"
proof -
  have p: "platform example_state = js ''NES''" by (simp add: example_state_def)
  have n: "js ''NES'' \<noteq> []" "js ''SNES'' \<noteq> []" by (simp_all add: js_def)
  have c: "getCoverUrl no_overrides (js ''SNES'') (js ''Super Metroid'') = None"
    by (simp add: getCoverUrl_def no_overrides_def)
  from selected_platform_only[of example_state plain_engine example_catalog 1 "[(js ''NES'', [js ''Metroid''])]"
            "js ''SNES''" no_overrides no_overrides "js '' Metroid ''" "[]"]
    p n example_filtered example_searched example_url c
  show ?thesis by simp
qed

section \<open>Malformed platform entries\<close>

text \<open>
  Claim C8 says that a platform whose value is not a list of titles counts as empty. A
  value that is a string is not a list of titles, and is truthy:
  \<^verbatim>\<open>(GAMES[p] || [])\<close> keeps it, it has no \<^verbatim>\<open>filter\<close>, and the call ends
  in a \<^verbatim>\<open>TypeError\<close>.
\<close>

theorem string_platform_value_throws:
  "property malformed_catalog (js ''NES'') = JString (js ''Contra'')
   \<and> filterPlatforms plain_engine malformed_catalog initial_state = Inl TypeError
   \<and> render_ui plain_engine no_overrides malformed_catalog initial_state = Inl TypeError
   \<and> render plain_engine no_overrides no_overrides malformed_catalog [] []
       = Inl TypeError"
  by code_simp

lemma array_filter_tolerant:
  "titles_or_falsy v \<Longrightarrow> \<exists>f. array_filter P (or_empty v) = Inr f"
  by (cases v) (auto simp: array_filter_def or_empty_def)

lemma property_ok:
  assumes "catalog_ok G" "p \<in> fst ` set G \<or> p \<notin> set object_prototype_names"
  shows "titles_or_falsy (property G p)"
proof (cases "map_of G p")
  case None
  then have "p \<notin> fst ` set G" by (simp add: map_of_eq_None_iff)
  with assms(2) None show ?thesis by (simp add: property_def)
next
  case (Some v)
  then have "(p, v) \<in> set G" by (rule map_of_SomeD)
  with assms(1) have "titles_or_falsy v" by (auto simp: catalog_ok_def list_all_iff)
  with Some show ?thesis by (simp add: property_def)
qed

lemma set_Object_keys: "set (Object_keys G) = fst ` set G"
  by (induction G rule: Object_keys.induct) auto

lemma set_insert_by: "set (insert_by cmp x xs) = insert x (set xs)"
  by (induction xs) auto

lemma set_sort_by: "set (sort_by cmp xs) = set xs"
  by (induction xs) (simp_all add: sort_by_def set_insert_by)

lemma filter_loop_total:
  "\<forall>p \<in> set ps. \<exists>f. filtered_titles E G st p = Inr f \<Longrightarrow>
     \<exists>r. filter_loop E G st ps acc = Inr r"
proof (induction ps arbitrary: acc)
  case Nil
  then show ?case by simp
next
  case (Cons q qs)
  obtain n m where acc: "acc = (n, m)" by (cases acc)
  from Cons.prems obtain f where f: "filtered_titles E G st q = Inr f" by auto
  from Cons.prems have "\<forall>p \<in> set qs. \<exists>f. filtered_titles E G st p = Inr f" by simp
  from Cons.IH[OF this] f acc show ?case by (simp add: filtered_titles_def)
qed

lemma render_loop_total:
  "\<forall>p \<in> set ps. \<exists>f. searched_titles E G term p = Inr f \<Longrightarrow>
     \<exists>r. render_loop E lm cm G term ps c = Inr r"
proof (induction ps arbitrary: c)
  case Nil
  then show ?case by simp
next
  case (Cons q qs)
  from Cons.prems obtain f where f: "searched_titles E G term q = Inr f" by auto
  from Cons.prems have "\<forall>p \<in> set qs. \<exists>f. searched_titles E G term p = Inr f" by simp
  from Cons.IH[OF this] f show ?case by (simp add: searched_titles_def)
qed

lemma platforms_ok:
  assumes "catalog_ok G" "selectable G sel"
    and "ps = (if sel \<noteq> [] then [sel] else sort_by cmp (Object_keys G))"
    and "p \<in> set ps"
  shows "titles_or_falsy (property G p)"
proof -
  have "p \<in> fst ` set G \<or> p \<notin> set object_prototype_names"
    using assms(2,3,4) by (auto simp: selectable_def set_sort_by set_Object_keys split: if_splits)
  with assms(1) show ?thesis by (rule property_ok)
qed

lemma example_catalog_ok: "catalog_ok example_catalog"
  by code_simp

text \<open>
  Claim C8, amended. A platform whose value is missing or falsy counts as a platform
  with no titles. On a catalog whose values are lists of titles or falsy, and a selected
  platform that is none, one of the catalog, or not a name of \<^verbatim>\<open>Object.prototype\<close>,
  the filter and the renderer of either script return a result.
\<close>

theorem falsy_platform_value_is_empty:
  "(\<not> truthy (property G p) \<longrightarrow>
       filtered_titles E G st p = Inr [] \<and> searched_titles E G term p = Inr [])
   \<and> (catalog_ok G \<and> selectable G (platform st) \<longrightarrow>
        (\<exists>pg. render_ui E LM G st = Inr pg))
   \<and> (catalog_ok G \<and> selectable G sel \<longrightarrow>
        (\<exists>c. render E lm cm G sv sel = Inr c))"
proof (intro conjI impI)
  assume "\<not> truthy (property G p)"
  then show "filtered_titles E G st p = Inr []"
    by (simp add: filtered_titles_def or_empty_def array_filter_def)
next
  assume "\<not> truthy (property G p)"
  then show "searched_titles E G term p = Inr []"
    by (simp add: searched_titles_def or_empty_def array_filter_def)
next
  assume a: "catalog_ok G \<and> selectable G (platform st)"
  have "\<forall>p \<in> set (allPlatforms E G st). \<exists>f. filtered_titles E G st p = Inr f"
  proof
    fix p assume "p \<in> set (allPlatforms E G st)"
    moreover have "allPlatforms E G st
        = (if platform st \<noteq> [] then [platform st]
           else sort_by (localeCompare E) (Object_keys G))"
      unfolding allPlatforms_def platformKeys_def by (rule refl)
    ultimately have "titles_or_falsy (property G p)"
      using a platforms_ok[of G "platform st" "allPlatforms E G st" "localeCompare E" p]
      by simp
    then show "\<exists>f. filtered_titles E G st p = Inr f"
      unfolding filtered_titles_def by (rule array_filter_tolerant)
  qed
  then have "\<exists>r. filter_loop E G st (allPlatforms E G st) (0, []) = Inr r"
    by (rule filter_loop_total)
  then obtain r where "filterPlatforms E G st = Inr r"
    by (auto simp: filterPlatforms_def)
  then show "\<exists>pg. render_ui E LM G st = Inr pg"
    by (cases r) (simp add: render_ui_def)
next
  assume a: "catalog_ok G \<and> selectable G sel"
  let ?ps = "if sel \<noteq> [] then [sel] else sort_by (localeCompare E) (Object_keys G)"
  have "\<forall>p \<in> set ?ps. \<exists>f. searched_titles E G (trim (toLowerCase E sv)) p = Inr f"
  proof
    fix p assume "p \<in> set ?ps"
    with a have "titles_or_falsy (property G p)"
      using platforms_ok[of G sel ?ps "localeCompare E" p] by simp
    then show "\<exists>f. searched_titles E G (trim (toLowerCase E sv)) p = Inr f"
      unfolding searched_titles_def by (rule array_filter_tolerant)
  qed
  then have "\<exists>r. render_loop E lm cm G (trim (toLowerCase E sv)) ?ps [] = Inr r"
    by (rule render_loop_total)
  then show "\<exists>c. render E lm cm G sv sel = Inr c"
    by (simp add: render_def Let_def)
qed

theorem falsy_platform_value_is_empty_witness:
  "\<not> truthy (property example_catalog (js ''Lynx''))
   \<and> filtered_titles plain_engine example_catalog initial_state (js ''Lynx'') = Inr []
   \<and> catalog_ok example_catalog \<and> selectable example_catalog (platform initial_state)
   \<and> (\<exists>pg. render_ui plain_engine no_overrides example_catalog initial_state = Inr pg)
   \<and> (\<exists>c. render plain_engine no_overrides no_overrides example_catalog
            [] [] = Inr c)"
proof -
  have l: "\<not> truthy (property example_catalog (js ''Lynx''))" by code_simp
  have s: "selectable example_catalog (platform initial_state)"
    "selectable example_catalog []"
    by (simp_all add: selectable_def initial_state_def)
  from falsy_platform_value_is_empty[of example_catalog "js ''Lynx''" plain_engine initial_state "[]"
         no_overrides "[]" no_overrides no_overrides "[]"] l s example_catalog_ok
  show ?thesis by simp
qed

section \<open>The letter filter\<close>

lemma matches_iff:
  "titleMatchesFilters E st title \<longleftrightarrow>
     (search st = [] \<or> includes_str (toLowerCase E title) (search st))
     \<and> (letter st = [] \<or> firstLetterKey E title = letter st)"
  by (auto simp: titleMatchesFilters_def)

lemma hash_not_upper: "\<not> list_ex is_upper_AZ (js ''#'')"
  by (simp add: js_def is_upper_AZ_def)

lemma A_upper: "list_ex is_upper_AZ (js ''A'')"
  by (simp add: js_def is_upper_AZ_def)

lemma key_is_A:
  "firstLetterKey E title = js ''A'' \<longleftrightarrow> toUpperCase E (take 1 (trim title)) = js ''A''"
proof -
  have "js ''#'' \<noteq> js ''A''" by (simp add: js_def)
  then show ?thesis using A_upper by (auto simp: firstLetterKey_def Let_def)
qed

lemma ascii_upper_A: "ascii_upper c = 0x41 \<longleftrightarrow> c = 0x41 \<or> c = 0x61"
proof -
  have "c - 0x20 = 0x41 \<longleftrightarrow> c = 0x61"
  proof
    assume "c - 0x20 = 0x41"
    then have "c = 0x41 + 0x20" by (simp add: diff_eq_eq)
    then show "c = 0x61" by simp
  qed simp
  then show ?thesis by (auto simp: ascii_upper_def)
qed

text \<open>
  Claim C6 says that a title whose first character is not an ASCII letter is in no
  bucket of a letter. The filter upper-cases the first code unit before it tests for
  \<^verbatim>\<open>[A-Z]\<close>, and the dotless i, no ASCII letter, upper-cases to I: a title that
  starts with it is in the bucket of I.
\<close>

theorem dotless_i_in_bucket_I:
  "take 1 (trim dotless_title) = [0x0131]
   \<and> \<not> is_ascii 0x0131
   \<and> toUpperCase case_engine [0x0131] = js ''I''
   \<and> letter letter_I = js ''I''
   \<and> titleMatchesFilters case_engine letter_I dotless_title"
  by code_simp

text \<open>
  Claim C6, amended. With the letter A selected, the titles that pass are those that
  pass the search and whose trimmed first code unit upper-cases to A; for an ASCII first
  code unit that means it is a or A. A title whose trimmed first code unit does not
  upper-case to one letter of A to Z passes under no selection of one character but the
  bucket #; and with no search it passes under # when its upper-cased first code unit
  has no letter of A to Z at all, as for a digit.
\<close>

theorem letter_bucket:
  "(letter st = js ''A'' \<longrightarrow>
      (titleMatchesFilters E st title \<longleftrightarrow>
         (search st = [] \<or> includes_str (toLowerCase E title) (search st))
         \<and> toUpperCase E (take 1 (trim title)) = js ''A''))
   \<and> (letter st = js ''A'' \<and> search st = [] \<and> take 1 (trim title) = [c] \<and> is_ascii c \<longrightarrow>
        (titleMatchesFilters E st title \<longleftrightarrow> c = 0x41 \<or> c = 0x61))
   \<and> (\<not> (\<exists>u. is_upper_AZ u \<and> toUpperCase E (take 1 (trim title)) = [u])
        \<and> length (letter st) = 1 \<and> titleMatchesFilters E st title \<longrightarrow>
        letter st = js ''#'')
   \<and> (\<not> list_ex is_upper_AZ (toUpperCase E (take 1 (trim title)))
        \<and> letter st = js ''#'' \<and> search st = [] \<longrightarrow>
        titleMatchesFilters E st title)"
proof (intro conjI impI)
  assume "letter st = js ''A''"
  moreover have "js ''A'' \<noteq> []" by (simp add: js_def)
  ultimately show "titleMatchesFilters E st title \<longleftrightarrow>
         (search st = [] \<or> includes_str (toLowerCase E title) (search st))
         \<and> toUpperCase E (take 1 (trim title)) = js ''A''"
    by (simp add: matches_iff key_is_A)
next
  assume a: "letter st = js ''A'' \<and> search st = [] \<and> take 1 (trim title) = [c] \<and> is_ascii c"
  have "js ''A'' \<noteq> []" by (simp add: js_def)
  with a have "titleMatchesFilters E st title \<longleftrightarrow> toUpperCase E [c] = js ''A''"
    by (simp add: matches_iff key_is_A)
  also from a have "\<dots> \<longleftrightarrow> ascii_upper c = 0x41"
    by (simp add: toUpperCase_def js_def)
  finally show "titleMatchesFilters E st title \<longleftrightarrow> c = 0x41 \<or> c = 0x61"
    by (simp add: ascii_upper_A)
next
  assume a: "\<not> (\<exists>u. is_upper_AZ u \<and> toUpperCase E (take 1 (trim title)) = [u])
        \<and> length (letter st) = 1 \<and> titleMatchesFilters E st title"
  let ?ch = "toUpperCase E (take 1 (trim title))"
  from a have k: "firstLetterKey E title = letter st" by (auto simp: matches_iff)
  show "letter st = js ''#''"
  proof (cases "list_ex is_upper_AZ ?ch")
    case True
    with k have e: "?ch = letter st" by (simp add: firstLetterKey_def Let_def)
    with a obtain u where u: "?ch = [u]" by (cases ?ch) auto
    with True have "is_upper_AZ u" by simp
    with a u show ?thesis by blast
  next
    case False
    with k show ?thesis by (simp add: firstLetterKey_def Let_def)
  qed
next
  assume "\<not> list_ex is_upper_AZ (toUpperCase E (take 1 (trim title)))
        \<and> letter st = js ''#'' \<and> search st = []"
  then show "titleMatchesFilters E st title"
    by (simp add: matches_iff firstLetterKey_def Let_def)
qed

theorem letter_bucket_witness:
  "titleMatchesFilters plain_engine letter_A (js ''  apple Panic'')
   \<and> \<not> titleMatchesFilters plain_engine letter_A (js ''3D Pinball'')
   \<and> titleMatchesFilters plain_engine letter_hash (js ''3D Pinball'')
   \<and> \<not> titleMatchesFilters plain_engine letter_hash (js ''  apple Panic'')"
proof -
  have l: "letter letter_A = js ''A''" "search letter_A = []"
    "letter letter_hash = js ''#''" "search letter_hash = []" "length (letter letter_hash) = 1"
    by (simp_all add: letter_A_def letter_hash_def initial_state_def js_def)
  have t1: "take 1 (trim (js ''  apple Panic'')) = [0x61]" "is_ascii 0x61" by code_simp+
  have t2: "take 1 (trim (js ''3D Pinball'')) = [0x33]" "is_ascii 0x33" by code_simp+
  have u1: "toUpperCase plain_engine (take 1 (trim (js ''  apple Panic''))) = [0x41]" by code_simp
  have u2: "toUpperCase plain_engine (take 1 (trim (js ''3D Pinball''))) = [0x33]" by code_simp
  have n: "\<not> is_upper_AZ 0x33" "is_upper_AZ 0x41" "js ''A'' \<noteq> js ''#''" by code_simp+
  note A1 = letter_bucket[of letter_A plain_engine "js ''  apple Panic''" "0x61"]
  note A2 = letter_bucket[of letter_A plain_engine "js ''3D Pinball''" "0x33"]
  note H = letter_bucket[of letter_hash plain_engine "js ''3D Pinball''" "0x33"]
  have a: "titleMatchesFilters plain_engine letter_A (js ''  apple Panic'')"
    using A1[THEN conjunct2, THEN conjunct1] l t1 by simp
  have b: "\<not> titleMatchesFilters plain_engine letter_A (js ''3D Pinball'')"
    using A2[THEN conjunct2, THEN conjunct1] l t2 by simp
  have c: "titleMatchesFilters plain_engine letter_hash (js ''3D Pinball'')"
    using H[THEN conjunct2, THEN conjunct2, THEN conjunct2] l u2 n by simp
  have d: "\<not> titleMatchesFilters plain_engine letter_hash (js ''  apple Panic'')"
    by code_simp
  from a b c d show ?thesis by simp
qed

section \<open>Debounce\<close>

lemma first_event_armed:
  assumes "pending u = []" "clock u \<le> now"
  shows "armed u now v (input_event E (now, v) u)"
  using assms
  by (simp add: armed_def input_event_def advance_def debounced_input_def clearTimeout_def
        Let_def max_def)

lemma next_event_armed:
  assumes "armed u0 now v u" "now \<le> now'" "now' < now + 160"
  shows "armed u0 now' v' (input_event E (now', v') u)"
proof -
  from assms(1) obtain i where i: "pending u = [(i, now + 160)]" "timer u = Some i"
    and f: "clock u = now" "fstate u = fstate u0" "renders u = renders u0"
    by (auto simp: armed_def)
  from i f assms(2,3) show ?thesis
    by (simp add: armed_def input_event_def advance_def debounced_input_def clearTimeout_def
          Let_def max_def)
qed

lemma run_armed:
  "armed u0 now v u \<Longrightarrow> within_window ((now, v) # es) \<Longrightarrow>
     armed u0 (fst (last ((now, v) # es))) (snd (last ((now, v) # es))) (run_events E es u)"
proof (induction es arbitrary: now v u)
  case Nil
  then show ?case by simp
next
  case (Cons e es)
  obtain now' v' where e: "e = (now', v')" by (cases e)
  from Cons.prems(2) e have w: "now \<le> now'" "now' < now + 160" "within_window ((now', v') # es)"
    by simp_all
  from next_event_armed[OF Cons.prems(1) w(1,2)]
  have "armed u0 now' v' (input_event E (now', v') u)" .
  from Cons.IH[OF this w(3)] e show ?case by simp
qed

lemma settle_armed:
  assumes "armed u0 now v u"
  shows "renders (settle E u) = renders u0 @ [(fstate u0)\<lparr> search := toLowerCase E (trim v) \<rparr>]"
    and "pending (settle E u) = []"
  using assms by (auto simp: armed_def settle_def search_callback_def Let_def)

lemma bindControls_events_map:
  "bindControls_events E es r = r @ map (\<lambda>e. trim (toLowerCase E (snd e))) es"
  by (induction es arbitrary: r) simp_all

text \<open>
  Claim C7 says that input events within the debounce window give one recompute. The
  handler that script.js binds to the input event is \<^verbatim>\<open>render\<close> itself, with no
  timer: two events 90 milliseconds apart render twice.
\<close>

theorem script_renders_every_event:
  "two_keys \<noteq> [] \<and> within_window two_keys
   \<and> bindControls_events plain_engine two_keys [] = [js ''m'', js ''me'']"
  by code_simp

text \<open>
  Claim C7, amended. In the accordion script, one or more input events, each less than
  160 milliseconds after the one before and with no timeout pending at the start, give
  exactly one recompute once they have ended; it runs on the text of the last event,
  trimmed and lower-cased. When the last event has been handled the only timeout
  pending is its own: those of the earlier events were cancelled. In script.js, which
  has no debounce, there are as many recomputes as events.
\<close>

theorem debounce_single_recompute:
  assumes "es \<noteq> []" and "within_window es" and "pending u = []" and "clock u \<le> fst (hd es)"
  shows "renders (settle E (run_events E es u))
           = renders u @ [(fstate u)\<lparr> search := toLowerCase E (trim (snd (last es))) \<rparr>]
     \<and> (\<exists>i. pending (run_events E es u) = [(i, fst (last es) + 160)])
     \<and> length (bindControls_events E es []) = length es"
proof -
  from assms(1) obtain now v es' where es: "es = (now, v) # es'" by (cases es) auto
  with assms(4) have "clock u \<le> now" by simp
  with assms(3) have "armed u now v (input_event E (now, v) u)" by (rule first_event_armed)
  from run_armed[OF this, of es' E] assms(2) es
  have a: "armed u (fst (last es)) (snd (last es)) (run_events E es u)" by simp
  from settle_armed(1)[OF a] a show ?thesis
    by (auto simp: armed_def bindControls_events_map)
qed

theorem debounce_single_recompute_witness:
  "typing \<noteq> [] \<and> within_window typing \<and> pending new_controller = []
   \<and> clock new_controller \<le> fst (hd typing)
   \<and> renders (settle plain_engine (run_events plain_engine typing new_controller))
       = [initial_state\<lparr> search := js ''metroid'' \<rparr>]"
proof -
  have a: "typing \<noteq> []" "within_window typing" "pending new_controller = []"
    "clock new_controller \<le> fst (hd typing)"
    by (simp_all add: typing_def new_controller_def)
  have l: "toLowerCase plain_engine (trim (snd (last typing))) = js ''metroid''"
    by code_simp
  from debounce_single_recompute[OF a, of plain_engine] a l show ?thesis by (simp add: new_controller_def)
qed

end
